theory Spec2Isabelle
  imports Main "HOL-Library.Char_ord"
begin

section \<open>Strings, character classes and the format pattern\<close>

text \<open>
  A Python string is modelled as a \<^typ>\<open>string\<close>. Every operation the two source files
  apply to an address (splitting on the ASCII character @, matching a pattern whose
  classes hold ASCII characters only) treats a character outside ASCII as an ordinary
  character that is in no class and is no separator, so nothing depends on how many
  such characters there are.
\<close>

definition ascii_letter :: "char \<Rightarrow> bool" where
  \<comment> \<open>the class \<^verbatim>\<open>[a-zA-Z]\<close>\<close>
  "ascii_letter c =
     ((CHR ''a'' \<le> c \<and> c \<le> CHR ''z'') \<or> (CHR ''A'' \<le> c \<and> c \<le> CHR ''Z''))"

definition ascii_digit :: "char \<Rightarrow> bool" where
  \<comment> \<open>the range \<^verbatim>\<open>0-9\<close>\<close>
  "ascii_digit c = (CHR ''0'' \<le> c \<and> c \<le> CHR ''9'')"

definition local_class :: "char \<Rightarrow> bool" where
  \<comment> \<open>the class \<^verbatim>\<open>[a-zA-Z0-9._%+-]\<close>\<close>
  "local_class c = (ascii_letter c \<or> ascii_digit c \<or> c \<in> set ''._%+-'')"

definition domain_class :: "char \<Rightarrow> bool" where
  \<comment> \<open>the class \<^verbatim>\<open>[a-zA-Z0-9.-]\<close>\<close>
  "domain_class c = (ascii_letter c \<or> ascii_digit c \<or> c \<in> set ''.-'')"

text \<open>
  The pattern of \<^verbatim>\<open>is_email_format_valid\<close> is a sequence of items, each either a
  literal character or a character class repeated at least \<open>n\<close> times (\<^verbatim>\<open>+\<close> is
  \<open>n = 1\<close>, \<^verbatim>\<open>{2,}\<close> is \<open>n = 2\<close>), closed by the anchor \<^verbatim>\<open>$\<close>.
\<close>

datatype regex_item = Lit char | AtLeast nat "char \<Rightarrow> bool"

fun repeat_class :: "(char \<Rightarrow> bool) \<Rightarrow> string \<Rightarrow> string list" where
  \<comment> \<open>what may remain after a greedy \<^verbatim>\<open>*\<close>: the longest run first, then each shorter one\<close>
  "repeat_class p [] = [[]]"
| "repeat_class p (c # cs) = (if p c then repeat_class p cs @ [c # cs] else [c # cs])"

fun at_least :: "nat \<Rightarrow> (char \<Rightarrow> bool) \<Rightarrow> string \<Rightarrow> string list" where
  "at_least 0 p s = repeat_class p s"
| "at_least (Suc n) p [] = []"
| "at_least (Suc n) p (c # cs) = (if p c then at_least n p cs else [])"

fun match_item :: "regex_item \<Rightarrow> string \<Rightarrow> string list" where
  "match_item (Lit x) [] = []"
| "match_item (Lit x) (c # cs) = (if c = x then [cs] else [])"
| "match_item (AtLeast n p) s = at_least n p s"

fun match_items :: "regex_item list \<Rightarrow> string \<Rightarrow> string list" where
  \<comment> \<open>every remainder the backtracking matcher can reach after the items, in its order of trial\<close>
  "match_items [] s = [s]"
| "match_items (it # its) s = concat (map (match_items its) (match_item it s))"

definition dollar :: "string \<Rightarrow> bool" where
  \<comment> \<open>Python's \<^verbatim>\<open>$\<close> without MULTILINE: at the end, or just before a newline that ends the string\<close>
  "dollar rest = (rest = [] \<or> rest = [CHR ''\<newline>''])"

definition pattern :: "regex_item list" where
  \<comment> \<open>\<^verbatim>\<open>^[a-zA-Z0-9._%+-]+@[a-zA-Z0-9.-]+\.[a-zA-Z]{2,}$\<close>; \<^verbatim>\<open>re.match\<close> starts at position 0\<close>
  "pattern = [AtLeast 1 local_class, Lit CHR ''@'', AtLeast 1 domain_class,
              Lit CHR ''.'', AtLeast 2 ascii_letter]"

definition re_match :: "regex_item list \<Rightarrow> string \<Rightarrow> bool" where
  "re_match its s = list_ex dollar (match_items its s)"

definition is_email_format_valid :: "string \<Rightarrow> bool" where
  \<comment> \<open>\<^verbatim>\<open>email_validate_script.py\<close>, lines 7 to 10\<close>
  "is_email_format_valid email = re_match pattern email"


section \<open>Splitting an address\<close>

fun py_split :: "char \<Rightarrow> string \<Rightarrow> string list" where
  \<comment> \<open>\<^verbatim>\<open>str.split(sep)\<close> for a separator of one character: never the empty list (so
      the first branch of the \<open>case\<close> is never taken), and a part may be empty\<close>
  "py_split sep [] = [[]]"
| "py_split sep (c # cs) =
     (if c = sep then [] # py_split sep cs
      else (case py_split sep cs of
              [] \<Rightarrow> [[c]]
            | part # parts \<Rightarrow> (c # part) # parts))"

section \<open>The collaborators: DNS and the mail client\<close>

text \<open>
  An exception is its class and the text \<^verbatim>\<open>str(e)\<close>. The classes are the ones the
  handlers of \<^verbatim>\<open>verify_email_smtp\<close> name; \<open>OtherException\<close> is any other subclass of
  \<^verbatim>\<open>Exception\<close>.
\<close>

datatype exc_class =
  DNSException | SMTPServerDisconnected | SMTPConnectError | SocketTimeout | OtherException

datatype exc = Exc exc_class string

fun exc_class_of :: "exc \<Rightarrow> exc_class" where
  "exc_class_of (Exc k m) = k"

fun exc_str :: "exc \<Rightarrow> string" where
  "exc_str (Exc k m) = m"

text \<open>
  The network is a parameter. Each call of the source into \<^verbatim>\<open>dns.resolver\<close> or
  \<^verbatim>\<open>smtplib\<close> is a field: it reads the state \<open>'w\<close> of the outside world, returns a value or
  raises, and leaves a new state, so that a server may answer differently the second
  time it is asked. The calls on the \<^verbatim>\<open>SMTP\<close> object act on the connection that the
  last \<^verbatim>\<open>connect\<close> opened, which is part of \<open>'w\<close>. Creating the \<^verbatim>\<open>SMTP\<close> object
  without a host and setting its debug level open no connection and do not raise; every
  call returns or raises within its timeout.
\<close>

record 'w network =
  dns_resolve :: "string \<Rightarrow> 'w \<Rightarrow> (exc + string list) \<times> 'w"
  smtp_connect :: "string \<Rightarrow> int \<Rightarrow> 'w \<Rightarrow> (exc + unit) \<times> 'w"
  smtp_helo :: "'w \<Rightarrow> (exc + unit) \<times> 'w"
  smtp_mail :: "string \<Rightarrow> 'w \<Rightarrow> (exc + unit) \<times> 'w"
  smtp_rcpt :: "string \<Rightarrow> 'w \<Rightarrow> (exc + int \<times> string) \<times> 'w"
  smtp_quit :: "'w \<Rightarrow> (exc + unit) \<times> 'w"

text \<open>
  \<^verbatim>\<open>dns.resolver.resolve\<close> is called with its defaults, under which it does not return
  an answer without records: a response that holds no record of the type asked for
  raises \<^verbatim>\<open>NoAnswer\<close>, a subclass of \<^verbatim>\<open>DNSException\<close>. A resolver of that kind is a
  table of responses wrapped in \<open>raise_on_no_answer\<close>.
\<close>

definition no_answer :: "string \<Rightarrow> exc" where
  "no_answer domain =
     Exc DNSException
       (''The DNS response does not contain an answer to the question: '' @ domain @ ''. IN MX'')"

definition raise_on_no_answer ::
  "(string \<Rightarrow> 'w \<Rightarrow> (exc + string list) \<times> 'w) \<Rightarrow> string \<Rightarrow> 'w \<Rightarrow> (exc + string list) \<times> 'w" where
  "raise_on_no_answer response domain w =
     (case response domain w of
        (r, w') \<Rightarrow> (if r = Inr [] then Inl (no_answer domain) else r, w'))"

text \<open>Every call that leaves the process is recorded, in order.\<close>

datatype event =
  Resolve string | Connect string int | Helo | Mail string | Rcpt string | Quit

record 'w state =
  world :: 'w
  log :: "event list"

definition call :: "event \<Rightarrow> ('w \<Rightarrow> (exc + 'a) \<times> 'w) \<Rightarrow> 'w state \<Rightarrow> (exc + 'a) \<times> 'w state" where
  "call ev f st = (case f (world st) of (r, w') \<Rightarrow> (r, \<lparr>world = w', log = log st @ [ev]\<rparr>))"

fun contacted :: "event list \<Rightarrow> string list" where
  \<comment> \<open>the mail servers a connection was attempted to, in order\<close>
  "contacted [] = []"
| "contacted (Connect h t # evs) = h # contacted evs"
| "contacted (ev # evs) = contacted evs"

fun lookups :: "event list \<Rightarrow> string list" where
  \<comment> \<open>the domains whose MX records were asked for, in order\<close>
  "lookups [] = []"
| "lookups (Resolve d # evs) = d # lookups evs"
| "lookups (ev # evs) = lookups evs"

section \<open>The reachability prober\<close>

definition sender_email :: string where
  "sender_email = ''emeraldgreen@example.com''"

definition missing_at_message :: string where
  "missing_at_message = ''Invalid email format (missing @ symbol)''"

definition inconclusive_message :: string where
  "inconclusive_message =
     ''Email validation failed or timed out. This doesn't necessarily mean the email is invalid - many servers block SMTP verification.''"

definition smtp_session ::
  "'w network \<Rightarrow> string \<Rightarrow> int \<Rightarrow> string \<Rightarrow> 'w state \<Rightarrow> (exc + int \<times> string) \<times> 'w state" where
  \<comment> \<open>the body of the \<^verbatim>\<open>try\<close> up to \<^verbatim>\<open>smtp.quit()\<close>: the first call that raises ends it\<close>
  "smtp_session net email timeout mx_record st =
     (case call (Connect mx_record timeout) (smtp_connect net mx_record timeout) st of
        (Inl e, st1) \<Rightarrow> (Inl e, st1)
      | (Inr u1, st1) \<Rightarrow>
     (case call Helo (smtp_helo net) st1 of
        (Inl e, st2) \<Rightarrow> (Inl e, st2)
      | (Inr u2, st2) \<Rightarrow>
     (case call (Mail sender_email) (smtp_mail net sender_email) st2 of
        (Inl e, st3) \<Rightarrow> (Inl e, st3)
      | (Inr u3, st3) \<Rightarrow>
     (case call (Rcpt email) (smtp_rcpt net email) st3 of
        (Inl e, st4) \<Rightarrow> (Inl e, st4)
      | (Inr reply, st4) \<Rightarrow>
     (case call Quit (smtp_quit net) st4 of
        (Inl e, st5) \<Rightarrow> (Inl e, st5)
      | (Inr u5, st5) \<Rightarrow> (Inr reply, st5))))))"

fun try_mx_records ::
  "'w network \<Rightarrow> string \<Rightarrow> int \<Rightarrow> string list \<Rightarrow> 'w state \<Rightarrow> (bool \<times> string) \<times> 'w state" where
  \<comment> \<open>the \<^verbatim>\<open>for mx_record in mx_records\<close> loop and the \<^verbatim>\<open>return\<close> after it\<close>
  "try_mx_records net email timeout [] st = ((False, inconclusive_message), st)"
| "try_mx_records net email timeout (mx_record # rest) st =
     (case smtp_session net email timeout mx_record st of
        (Inr (code, message), st') \<Rightarrow>
          if code = 250 then ((True, ''Email exists''), st')
          else try_mx_records net email timeout rest st'
      | (Inl e, st') \<Rightarrow>
          if exc_class_of e = SMTPServerDisconnected then try_mx_records net email timeout rest st'
          else if exc_class_of e = SMTPConnectError then try_mx_records net email timeout rest st'
          else if exc_class_of e = SocketTimeout then try_mx_records net email timeout rest st'
          else try_mx_records net email timeout rest st')"

definition verify_email_smtp ::
  "'w network \<Rightarrow> string \<Rightarrow> int \<Rightarrow> 'w state \<Rightarrow> (bool \<times> string) \<times> 'w state" where
  \<comment> \<open>the same text in both source files\<close>
  "verify_email_smtp net email timeout st =
     (case py_split CHR ''@'' email of
        [username, domain] \<Rightarrow>
          (case call (Resolve domain) (dns_resolve net domain) st of
             (Inr mx_records, st1) \<Rightarrow>
               if mx_records = []
               then ((False, ''No MX records found for domain '' @ domain), st1)
               else try_mx_records net email timeout mx_records st1
           | (Inl e, st1) \<Rightarrow>
               if exc_class_of e = DNSException
               then ((False, ''DNS error: '' @ exc_str e), st1)
               else ((False, ''Error resolving MX records: '' @ exc_str e), st1))
      | _ \<Rightarrow> ((False, missing_at_message), st))"

definition check_email :: "'w network \<Rightarrow> string \<Rightarrow> 'w state \<Rightarrow> (bool \<times> string) \<times> 'w state" where
  \<comment> \<open>\<^verbatim>\<open>email_validate_script.py\<close>, lines 67 to 74; the timeout is the default 15\<close>
  "check_email net email st =
     (if \<not> is_email_format_valid email then ((False, ''Invalid email format''), st)
      else verify_email_smtp net email 15 st)"


section \<open>The batch driver\<close>

text \<open>
  A cell of the uploaded table is what \<^verbatim>\<open>read_csv\<close> yields: a string, a boolean, a
  missing value, or a number, which the driver only ever sees through \<^verbatim>\<open>str\<close> and which
  is kept as that text. The dates that a spreadsheet may also hold are not modelled. The
  progress bar, the status line and the pause after each record change neither the table
  nor what is sent to the network, and are left out.
\<close>

datatype cell = CStr string | CBool bool | CNaN | CNum string

fun py_str :: "cell \<Rightarrow> string" where
  "py_str (CStr s) = s"
| "py_str (CBool b) = (if b then ''True'' else ''False'')"
| "py_str CNaN = ''nan''"
| "py_str (CNum s) = s"

fun pd_isna :: "cell \<Rightarrow> bool" where
  "pd_isna CNaN = True"
| "pd_isna c = False"

definition is_email_format_valid_st :: "cell \<Rightarrow> bool" where
  \<comment> \<open>\<^verbatim>\<open>streamlit_email.py\<close>, lines 16 to 21\<close>
  "is_email_format_valid_st email =
     (if pd_isna email then False else re_match pattern (py_str email))"

type_synonym row = "string \<rightharpoonup> cell"

record dataframe =
  columns :: "string list"
  rows :: "row list"

definition set_column :: "string \<Rightarrow> cell \<Rightarrow> dataframe \<Rightarrow> dataframe" where
  \<comment> \<open>\<^verbatim>\<open>df[name] = v\<close> for a scalar: the column is added at the end when it is new\<close>
  "set_column name v df =
     \<lparr>columns = (if name \<in> set (columns df) then columns df else columns df @ [name]),
      rows = map (\<lambda>r. r(name \<mapsto> v)) (rows df)\<rparr>"

text \<open>
  A column has a type, which pandas infers from its cells: booleans alone give
  \<^verbatim>\<open>bool\<close>, numbers and missing values alone give a numeric type, and anything else
  gives \<^verbatim>\<open>object\<close> (or \<^verbatim>\<open>str\<close>), which holds any value. Writing a single cell into a
  column that exists does not change the type of the column: as of pandas 3 a value the
  type cannot hold raises \<^verbatim>\<open>TypeError\<close> (pandas 2 casts the column and warns; the two
  agree on every run in which no such value is written).
\<close>

datatype dtype = DBool | DNumeric | DObject

fun is_bool :: "cell \<Rightarrow> bool" where
  "is_bool (CBool b) = True"
| "is_bool c = False"

fun is_numeric :: "cell \<Rightarrow> bool" where
  "is_numeric (CNum s) = True"
| "is_numeric CNaN = True"
| "is_numeric c = False"

definition column_cells :: "string \<Rightarrow> dataframe \<Rightarrow> cell list" where
  "column_cells name df = map (\<lambda>r. case r name of None \<Rightarrow> CNaN | Some c \<Rightarrow> c) (rows df)"

definition column_dtype :: "string \<Rightarrow> dataframe \<Rightarrow> dtype" where
  "column_dtype name df =
     (if list_all is_bool (column_cells name df) then DBool
      else if list_all is_numeric (column_cells name df) then DNumeric
      else DObject)"

fun holds :: "dtype \<Rightarrow> cell \<Rightarrow> bool" where
  "holds DObject c = True"
| "holds DBool c = is_bool c"
| "holds DNumeric c = is_numeric c"

definition put :: "nat \<Rightarrow> string \<Rightarrow> cell \<Rightarrow> dataframe \<Rightarrow> dataframe" where
  \<comment> \<open>the table after \<^verbatim>\<open>df.at[i, name] = v\<close> has succeeded, for a row \<open>i\<close> of the table: a
      new column is added first, missing in every row\<close>
  "put i name v df =
     (let df' = (if name \<in> set (columns df) then df
                 else \<lparr>columns = columns df @ [name],
                       rows = map (\<lambda>r. r(name \<mapsto> CNaN)) (rows df)\<rparr>)
      in \<lparr>columns = columns df',
          rows = (rows df')[i := ((rows df') ! i)(name \<mapsto> v)]\<rparr>)"

datatype py_error = KeyError string | ValueError | TypeError

definition set_at :: "nat \<Rightarrow> string \<Rightarrow> cell \<Rightarrow> dataframe \<Rightarrow> py_error + dataframe" where
  \<comment> \<open>\<^verbatim>\<open>df.at[i, name] = v\<close>\<close>
  "set_at i name v df =
     (if name \<in> set (columns df) \<and> \<not> holds (column_dtype name df) v then Inl TypeError
      else Inr (put i name v df))"

definition and_then ::
  "py_error + dataframe \<Rightarrow> (dataframe \<Rightarrow> py_error + dataframe) \<Rightarrow> py_error + dataframe" where
  \<comment> \<open>one statement after another: the first exception ends the sequence\<close>
  "and_then r f = (case r of Inl err \<Rightarrow> Inl err | Inr df \<Rightarrow> f df)"

datatype batch_error = EmptyFile | NoColumnSelected | ProcessingError py_error

definition validate_row ::
  "'w network \<Rightarrow> string \<Rightarrow> nat \<Rightarrow> row \<Rightarrow> dataframe \<Rightarrow> 'w state
     \<Rightarrow> (batch_error + dataframe) \<times> 'w state" where
  \<comment> \<open>the body of the loop of \<^verbatim>\<open>streamlit_email.py\<close>, lines 125 to 143; an exception ends
      the run in the handler of line 188\<close>
  "validate_row net email_col i row df st =
     (case row email_col of
        None \<Rightarrow> (Inl (ProcessingError (KeyError email_col)), st)
      | Some c \<Rightarrow>
          (let email = py_str c;
               format_valid = is_email_format_valid_st (CStr email)
           in case set_at i ''format_valid'' (CBool format_valid) df of
                Inl err \<Rightarrow> (Inl (ProcessingError err), st)
              | Inr df1 \<Rightarrow>
                  if format_valid then
                    (case verify_email_smtp net email 15 st of
                       ((is_reachable, message), st') \<Rightarrow>
                         (case py_split CHR ''@'' email of
                            [username, domain] \<Rightarrow>
                              (case and_then (and_then (and_then
                                        (set_at i ''username'' (CStr username) df1)
                                        (set_at i ''domain'' (CStr domain)))
                                        (set_at i ''reachable'' (CBool is_reachable)))
                                        (set_at i ''validation_message'' (CStr message)) of
                                 Inl err \<Rightarrow> (Inl (ProcessingError err), st')
                               | Inr df' \<Rightarrow> (Inr df', st'))
                          | _ \<Rightarrow> (Inl (ProcessingError ValueError), st')))
                  else
                    (case set_at i ''validation_message'' (CStr ''Invalid email format'') df1 of
                       Inl err \<Rightarrow> (Inl (ProcessingError err), st)
                     | Inr df' \<Rightarrow> (Inr df', st))))"

fun validate_rows ::
  "'w network \<Rightarrow> string \<Rightarrow> (nat \<times> row) list \<Rightarrow> dataframe \<Rightarrow> 'w state
     \<Rightarrow> (batch_error + dataframe) \<times> 'w state" where
  \<comment> \<open>\<^verbatim>\<open>for i, row in df.iterrows()\<close>, over the rows as they were when the loop began\<close>
  "validate_rows net email_col [] df st = (Inr df, st)"
| "validate_rows net email_col ((i, row) # later) df st =
     (case validate_row net email_col i row df st of
        (Inl err, st') \<Rightarrow> (Inl err, st')
      | (Inr df', st') \<Rightarrow> validate_rows net email_col later df' st')"

definition add_result_columns :: "dataframe \<Rightarrow> dataframe" where
  \<comment> \<open>lines 117 to 119\<close>
  "add_result_columns df =
     set_column ''validation_message'' (CStr [])
       (set_column ''reachable'' (CBool False)
         (set_column ''format_valid'' (CBool False) df))"

definition validate_emails ::
  "'w network \<Rightarrow> string \<Rightarrow> dataframe \<Rightarrow> 'w state \<Rightarrow> (batch_error + dataframe) \<times> 'w state" where
  \<comment> \<open>what the button does with the table that was read and the column that was chosen\<close>
  "validate_emails net email_col df st =
     (if rows df = [] \<or> columns df = [] then (Inl EmptyFile, st)
      else if email_col = [] then (Inl NoColumnSelected, st)
      else (let df0 = add_result_columns df
            in validate_rows net email_col (enumerate 0 (rows df0)) df0 st))"

section \<open>Scripted networks for concrete runs\<close>

text \<open>
  A scripted network answers from two tables: the MX records that the DNS holds for each
  domain, read by a resolver that raises on an answer without records, and what each
  mail server does. Its state is the name of the server of the open connection.
\<close>

datatype host_script = Unreachable exc | Replies int | RepliesThenDrops int

definition scripted_net ::
  "(string \<Rightarrow> exc + string list) \<Rightarrow> (string \<Rightarrow> host_script) \<Rightarrow> string network" where
  "scripted_net dns script =
     \<lparr>dns_resolve = raise_on_no_answer (\<lambda>d w. (dns d, w)),
      smtp_connect = (\<lambda>h t w. (case script h of Unreachable e \<Rightarrow> (Inl e, w) | _ \<Rightarrow> (Inr (), h))),
      smtp_helo = (\<lambda>w. (Inr (), w)),
      smtp_mail = (\<lambda>s w. (Inr (), w)),
      smtp_rcpt = (\<lambda>e w. (case script w of
                             Unreachable x \<Rightarrow> (Inl x, w)
                           | Replies c \<Rightarrow> (Inr (c, []), w)
                           | RepliesThenDrops c \<Rightarrow> (Inr (c, []), w))),
      smtp_quit = (\<lambda>w. (case script w of
                          RepliesThenDrops c \<Rightarrow>
                            (Inl (Exc SMTPServerDisconnected ''Connection unexpectedly closed''), w)
                        | _ \<Rightarrow> (Inr (), w)))\<rparr>"

definition example_dns :: "string \<Rightarrow> exc + string list" where
  "example_dns d =
     (if d = ''example.com'' then Inr [''mx1.example.com'', ''mx2.example.com'']
      else if d = ''nomx.example'' then Inr []
      else Inl (Exc DNSException ''The DNS query name does not exist''))"

definition start :: "string state" where
  "start = \<lparr>world = [], log = []\<rparr>"


section \<open>Notions for stating the properties\<close>

definition localpart_domain_tld :: "string \<Rightarrow> bool" where
  \<comment> \<open>the shape \<^verbatim>\<open>localpart@domain.tld\<close>: allowed characters only, and a final label of two
      or more letters\<close>
  "localpart_domain_tld s =
     (\<exists>l d t. s = l @ ''@'' @ d @ ''.'' @ t
        \<and> l \<noteq> [] \<and> list_all local_class l
        \<and> d \<noteq> [] \<and> list_all domain_class d
        \<and> 2 \<le> length t \<and> list_all ascii_letter t)"

fun accepted :: "exc + int \<times> string \<Rightarrow> bool" where
  \<comment> \<open>the attempt at one server ran to the end and the reply to the recipient was 250\<close>
  "accepted (Inr (code, message)) = (code = 250)"
| "accepted (Inl e) = False"

fun session_outcomes ::
  "'w network \<Rightarrow> string \<Rightarrow> int \<Rightarrow> string list \<Rightarrow> 'w state \<Rightarrow> (exc + int \<times> string) list" where
  \<comment> \<open>how the attempt at each server of the list ends, when they are made one after the other\<close>
  "session_outcomes net email timeout [] st = []"
| "session_outcomes net email timeout (h # hs) st =
     (case smtp_session net email timeout h st of
        (r, st') \<Rightarrow> r # session_outcomes net email timeout hs st')"

definition address :: "string \<Rightarrow> row \<Rightarrow> string" where
  \<comment> \<open>\<^verbatim>\<open>str(row[email_col])\<close> for a row that has the column\<close>
  "address email_col r = py_str (case r email_col of None \<Rightarrow> CNaN | Some c \<Rightarrow> c)"

definition flagged :: "row \<Rightarrow> bool" where
  "flagged r = (r ''reachable'' = Some (CBool False)
                 \<and> r ''validation_message'' = Some (CStr ''Invalid email format''))"

fun probe_all :: "'w network \<Rightarrow> string list \<Rightarrow> 'w state \<Rightarrow> 'w state" where
  \<comment> \<open>the state after probing each address of the list in turn\<close>
  "probe_all net [] st = st"
| "probe_all net (email # emails) st = probe_all net emails (snd (verify_email_smtp net email 15 st))"

definition result_columns :: "string set" where
  \<comment> \<open>the columns that lines 117 to 119 set before the loop\<close>
  "result_columns = {''format_valid'', ''reachable'', ''validation_message''}"

definition well_formed :: "dataframe \<Rightarrow> bool" where
  \<comment> \<open>every row has a cell for each column of the table, and for nothing else\<close>
  "well_formed df = (\<forall>r \<in> set (rows df). dom r = set (columns df))"

definition takes_strings :: "string \<Rightarrow> dataframe \<Rightarrow> bool" where
  \<comment> \<open>a string can be written into the column: it is new, or of type \<^verbatim>\<open>object\<close>\<close>
  "takes_strings name df = (name \<in> set (columns df) \<longrightarrow> column_dtype name df = DObject)"

definition takes_bools :: "string \<Rightarrow> dataframe \<Rightarrow> bool" where
  "takes_bools name df = (name \<in> set (columns df) \<longrightarrow> column_dtype name df \<noteq> DNumeric)"

definition ready :: "dataframe \<Rightarrow> bool" where
  \<comment> \<open>what every pass of the loop relies on and keeps\<close>
  "ready df =
     (result_columns \<subseteq> set (columns df)
      \<and> takes_bools ''format_valid'' df \<and> takes_bools ''reachable'' df
      \<and> takes_strings ''validation_message'' df
      \<and> takes_strings ''username'' df \<and> takes_strings ''domain'' df)"

section \<open>The language of the pattern\<close>

lemma repeat_class_iff:
  "r \<in> set (repeat_class p s) \<longleftrightarrow> (\<exists>pre. s = pre @ r \<and> list_all p pre)"
proof (induction s)
  case Nil
  then show ?case by auto
next
  case (Cons c cs)
  show ?case
  proof
    assume "r \<in> set (repeat_class p (c # cs))"
    then consider "p c" "r \<in> set (repeat_class p cs)" | "r = c # cs"
      by (auto split: if_splits)
    then show "\<exists>pre. c # cs = pre @ r \<and> list_all p pre"
    proof cases
      case 1
      then obtain pre where "cs = pre @ r" "list_all p pre" using Cons.IH by blast
      with 1 have "c # cs = (c # pre) @ r \<and> list_all p (c # pre)" by simp
      then show ?thesis by blast
    next
      case 2
      then have "c # cs = [] @ r \<and> list_all p []" by simp
      then show ?thesis by blast
    qed
  next
    assume "\<exists>pre. c # cs = pre @ r \<and> list_all p pre"
    then obtain pre where pre: "c # cs = pre @ r" "list_all p pre" by blast
    show "r \<in> set (repeat_class p (c # cs))"
    proof (cases pre)
      case Nil
      with pre have "r = c # cs" by simp
      then show ?thesis by auto
    next
      case (Cons x pre')
      with pre have "p c" "cs = pre' @ r" "list_all p pre'" by auto
      then show ?thesis using Cons.IH by auto
    qed
  qed
qed

lemma at_least_iff:
  "r \<in> set (at_least n p s) \<longleftrightarrow> (\<exists>pre. s = pre @ r \<and> n \<le> length pre \<and> list_all p pre)"
proof (induction n p s rule: at_least.induct)
  case (1 p s)
  then show ?case by (simp add: repeat_class_iff)
next
  case (2 n p)
  then show ?case by simp
next
  case (3 n p c cs)
  show ?case
  proof (cases "p c")
    case True
    have "(\<exists>pre. cs = pre @ r \<and> n \<le> length pre \<and> list_all p pre)
        \<longleftrightarrow> (\<exists>pre. c # cs = pre @ r \<and> Suc n \<le> length pre \<and> list_all p pre)"
    proof
      assume "\<exists>pre. cs = pre @ r \<and> n \<le> length pre \<and> list_all p pre"
      then obtain pre where "cs = pre @ r" "n \<le> length pre" "list_all p pre" by blast
      with True have "c # cs = (c # pre) @ r \<and> Suc n \<le> length (c # pre) \<and> list_all p (c # pre)"
        by simp
      then show "\<exists>pre. c # cs = pre @ r \<and> Suc n \<le> length pre \<and> list_all p pre" by blast
    next
      assume "\<exists>pre. c # cs = pre @ r \<and> Suc n \<le> length pre \<and> list_all p pre"
      then obtain pre where pre: "c # cs = pre @ r" "Suc n \<le> length pre" "list_all p pre"
        by blast
      then obtain x pre' where "pre = x # pre'" by (cases pre) auto
      with pre have "cs = pre' @ r \<and> n \<le> length pre' \<and> list_all p pre'" by simp
      then show "\<exists>pre. cs = pre @ r \<and> n \<le> length pre \<and> list_all p pre" by blast
    qed
    with True 3 show ?thesis by simp
  next
    case False
    have "\<not> (\<exists>pre. c # cs = pre @ r \<and> Suc n \<le> length pre \<and> list_all p pre)"
    proof
      assume "\<exists>pre. c # cs = pre @ r \<and> Suc n \<le> length pre \<and> list_all p pre"
      then obtain pre where pre: "c # cs = pre @ r" "Suc n \<le> length pre" "list_all p pre"
        by blast
      then obtain x pre' where "pre = x # pre'" by (cases pre) auto
      with pre False show False by simp
    qed
    with False show ?thesis by simp
  qed
qed

lemma match_lit_iff: "r \<in> set (match_item (Lit x) s) \<longleftrightarrow> s = x # r"
  by (cases s) auto

lemma match_pattern_iff:
  "r \<in> set (match_items pattern s) \<longleftrightarrow>
     (\<exists>l d t. s = l @ CHR ''@'' # d @ CHR ''.'' # t @ r
        \<and> 1 \<le> length l \<and> list_all local_class l
        \<and> 1 \<le> length d \<and> list_all domain_class d
        \<and> 2 \<le> length t \<and> list_all ascii_letter t)"
  (is "?L \<longleftrightarrow> ?R")
proof
  assume ?L
  then obtain r1 r2 r3 r4 where
    "r1 \<in> set (at_least 1 local_class s)" "r2 \<in> set (match_item (Lit CHR ''@'') r1)"
    "r3 \<in> set (at_least 1 domain_class r2)" "r4 \<in> set (match_item (Lit CHR ''.'') r3)"
    "r \<in> set (at_least 2 ascii_letter r4)"
    unfolding pattern_def by auto
  then obtain l d t where
    "s = l @ r1" "1 \<le> length l" "list_all local_class l" "r1 = CHR ''@'' # r2"
    "r2 = d @ r3" "1 \<le> length d" "list_all domain_class d" "r3 = CHR ''.'' # r4"
    "r4 = t @ r" "2 \<le> length t" "list_all ascii_letter t"
    unfolding at_least_iff match_lit_iff by blast
  then have "s = l @ CHR ''@'' # d @ CHR ''.'' # t @ r
        \<and> 1 \<le> length l \<and> list_all local_class l
        \<and> 1 \<le> length d \<and> list_all domain_class d
        \<and> 2 \<le> length t \<and> list_all ascii_letter t" by simp
  then show ?R by blast
next
  assume ?R
  then obtain l d t where s: "s = l @ CHR ''@'' # d @ CHR ''.'' # t @ r"
    and l: "1 \<le> length l" "list_all local_class l"
    and d: "1 \<le> length d" "list_all domain_class d"
    and t: "2 \<le> length t" "list_all ascii_letter t" by blast
  have 1: "CHR ''@'' # d @ CHR ''.'' # t @ r \<in> set (match_item (AtLeast 1 local_class) s)"
    unfolding match_item.simps at_least_iff using s l by blast
  have 2: "d @ CHR ''.'' # t @ r \<in> set (match_item (Lit CHR ''@'') (CHR ''@'' # d @ CHR ''.'' # t @ r))"
    by simp
  have 3: "CHR ''.'' # t @ r \<in> set (match_item (AtLeast 1 domain_class) (d @ CHR ''.'' # t @ r))"
    unfolding match_item.simps at_least_iff using d by blast
  have 4: "t @ r \<in> set (match_item (Lit CHR ''.'') (CHR ''.'' # t @ r))"
    by simp
  have 5: "r \<in> set (match_item (AtLeast 2 ascii_letter) (t @ r))"
    unfolding match_item.simps at_least_iff using t by blast
  show ?L
    unfolding pattern_def using 1 2 3 4 5 by (simp del: match_item.simps) blast
qed

lemma is_email_format_valid_iff:
  "is_email_format_valid s \<longleftrightarrow>
     (\<exists>t. localpart_domain_tld t \<and> (s = t \<or> s = t @ [CHR ''\<newline>'']))"
proof -
  have "is_email_format_valid s \<longleftrightarrow> (\<exists>r \<in> set (match_items pattern s). dollar r)"
    by (simp add: is_email_format_valid_def re_match_def list_ex_iff)
  also have "\<dots> \<longleftrightarrow> (\<exists>l d t r. s = l @ CHR ''@'' # d @ CHR ''.'' # t @ r
        \<and> 1 \<le> length l \<and> list_all local_class l
        \<and> 1 \<le> length d \<and> list_all domain_class d
        \<and> 2 \<le> length t \<and> list_all ascii_letter t \<and> dollar r)"
    unfolding Bex_def match_pattern_iff by blast
  also have "\<dots> \<longleftrightarrow> (\<exists>u. localpart_domain_tld u \<and> (s = u \<or> s = u @ [CHR ''\<newline>'']))"
    unfolding localpart_domain_tld_def dollar_def
    apply (rule iffI)
     apply (elim exE conjE disjE)
      apply (rule_tac x="l @ CHR ''@'' # d @ CHR ''.'' # t" in exI)
      apply (rule conjI)
       apply (rule_tac x=l in exI, rule_tac x=d in exI, rule_tac x=t in exI)
       apply (simp add: Suc_le_eq)
      apply simp
     apply (rule_tac x="l @ CHR ''@'' # d @ CHR ''.'' # t" in exI)
     apply (rule conjI)
      apply (rule_tac x=l in exI, rule_tac x=d in exI, rule_tac x=t in exI)
      apply (simp add: Suc_le_eq)
     apply simp
    apply (elim exE conjE disjE)
     apply (rule_tac x=l in exI, rule_tac x=d in exI, rule_tac x=t in exI, rule_tac x="[]" in exI)
     apply (simp add: Suc_le_eq)
    apply (rule_tac x=l in exI, rule_tac x=d in exI, rule_tac x=t in exI, rule_tac x="[CHR ''\<newline>'']" in exI)
    apply (simp add: Suc_le_eq)
    done
  finally show ?thesis .
qed


section \<open>What the format validator accepts\<close>

lemma letter_not_at: "ascii_letter c \<Longrightarrow> c \<noteq> CHR ''@'' \<and> c \<noteq> CHR ''\<newline>'' \<and> c \<noteq> CHR ''.''"
  by (auto simp: ascii_letter_def less_eq_char_def)

lemma local_not_at: "local_class c \<Longrightarrow> c \<noteq> CHR ''@''"
  by (auto simp: local_class_def ascii_letter_def ascii_digit_def less_eq_char_def)

lemma domain_not_at: "domain_class c \<Longrightarrow> c \<noteq> CHR ''@''"
  by (auto simp: domain_class_def ascii_letter_def ascii_digit_def less_eq_char_def)

lemma py_split_no_sep: "sep \<notin> set s \<Longrightarrow> py_split sep s = [s]"
  by (induction s) auto

lemma py_split_first: "sep \<notin> set l \<Longrightarrow> py_split sep (l @ sep # rest) = l # py_split sep rest"
  by (induction l) auto

lemma py_split_not_Nil: "py_split sep s \<noteq> []"
  by (induction s) (auto split: list.splits)

lemma length_py_split: "length (py_split sep s) = Suc (count_list s sep)"
  by (induction s) (auto split: list.splits simp: py_split_not_Nil)

lemma shape_parts:
  assumes "localpart_domain_tld t"
  shows "\<exists>l r. t = l @ CHR ''@'' # r \<and> l \<noteq> [] \<and> r \<noteq> [] \<and> CHR ''@'' \<notin> set l \<and> CHR ''@'' \<notin> set r
            \<and> last r \<noteq> CHR ''\<newline>''"
proof -
  from assms obtain l d tl where t: "t = l @ ''@'' @ d @ ''.'' @ tl"
    and l: "l \<noteq> []" "list_all local_class l"
    and d: "d \<noteq> []" "list_all domain_class d"
    and tl: "2 \<le> length tl" "list_all ascii_letter tl"
    unfolding localpart_domain_tld_def by blast
  have 1: "CHR ''@'' \<notin> set l" using l local_not_at by (auto simp: list_all_iff)
  have 2: "CHR ''@'' \<notin> set d" using d domain_not_at by (auto simp: list_all_iff)
  have 3: "CHR ''@'' \<notin> set tl" using tl letter_not_at by (auto simp: list_all_iff)
  from tl have ne: "tl \<noteq> []" by auto
  then have "last tl \<in> set tl" by simp
  with tl have 4: "last tl \<noteq> CHR ''\<newline>''" using letter_not_at by (auto simp: list_all_iff)
  let ?r = "d @ CHR ''.'' # tl"
  have "t = l @ CHR ''@'' # ?r" using t by simp
  moreover have "CHR ''@'' \<notin> set ?r" using 2 3 by simp
  moreover have "last ?r \<noteq> CHR ''\<newline>''" using 4 ne by simp
  ultimately show ?thesis using l 1 by blast
qed

lemma valid_parts:
  assumes "is_email_format_valid s"
  shows "\<exists>l r. s = l @ CHR ''@'' # r \<and> l \<noteq> [] \<and> r \<noteq> [] \<and> CHR ''@'' \<notin> set l \<and> CHR ''@'' \<notin> set r"
proof -
  from assms obtain t where t: "localpart_domain_tld t" and s: "s = t \<or> s = t @ [CHR ''\<newline>'']"
    unfolding is_email_format_valid_iff by blast
  from shape_parts[OF t] obtain l r where
    p: "t = l @ CHR ''@'' # r" "l \<noteq> []" "r \<noteq> []" "CHR ''@'' \<notin> set l" "CHR ''@'' \<notin> set r"
    by blast
  from s show ?thesis
  proof
    assume "s = t"
    with p show ?thesis by blast
  next
    assume "s = t @ [CHR ''\<newline>'']"
    with p have "s = l @ CHR ''@'' # (r @ [CHR ''\<newline>'']) \<and> l \<noteq> [] \<and> r @ [CHR ''\<newline>''] \<noteq> []
       \<and> CHR ''@'' \<notin> set l \<and> CHR ''@'' \<notin> set (r @ [CHR ''\<newline>''])" by simp
    then show ?thesis by blast
  qed
qed

lemma valid_split:
  assumes "is_email_format_valid s"
  shows "\<exists>username domain. py_split CHR ''@'' s = [username, domain] \<and> username \<noteq> [] \<and> domain \<noteq> []"
proof -
  from valid_parts[OF assms] obtain l r where
    p: "s = l @ CHR ''@'' # r" "l \<noteq> []" "r \<noteq> []" "CHR ''@'' \<notin> set l" "CHR ''@'' \<notin> set r"
    by blast
  then have "py_split CHR ''@'' s = [l, r]"
    by (simp add: py_split_first py_split_no_sep)
  with p show ?thesis by blast
qed

lemma shape_newline_not_shape:
  assumes "localpart_domain_tld t"
  shows "\<not> localpart_domain_tld (t @ [CHR ''\<newline>''])"
proof
  assume "localpart_domain_tld (t @ [CHR ''\<newline>''])"
  from shape_parts[OF this] obtain l r where
    p: "t @ [CHR ''\<newline>''] = l @ CHR ''@'' # r" "r \<noteq> []" "last r \<noteq> CHR ''\<newline>''"
    by blast
  have "last (t @ [CHR ''\<newline>'']) = last (l @ CHR ''@'' # r)" using p(1) by simp
  then show False using p(2,3) by simp
qed

lemma valid_has_at: "is_email_format_valid s \<Longrightarrow> CHR ''@'' \<in> set s"
  using valid_parts [of s] by auto

text \<open>
  C6: a string that does not contain the character @ is rejected by
  \<^verbatim>\<open>is_email_format_valid\<close>, in the command-line file and in the batch file alike.
\<close>

theorem no_at_format_invalid:
  "CHR ''@'' \<notin> set s \<Longrightarrow> \<not> is_email_format_valid s \<and> \<not> is_email_format_valid_st (CStr s)"
proof -
  assume no: "CHR ''@'' \<notin> set s"
  have "\<not> is_email_format_valid s"
  proof
    assume "is_email_format_valid s"
    from valid_parts[OF this] no show False by auto
  qed
  then show ?thesis
    by (simp add: is_email_format_valid_st_def is_email_format_valid_def)
qed

theorem no_at_format_invalid_witness:
  "CHR ''@'' \<notin> set ''not-an-email'' \<and> \<not> is_email_format_valid ''not-an-email''
     \<and> \<not> is_email_format_valid_st (CStr ''not-an-email'')"
  using no_at_format_invalid [of "''not-an-email''"] by simp

lemma shape_example: "localpart_domain_tld ''user@example.com''"
proof -
  have "''user@example.com'' = ''user'' @ ''@'' @ ''example'' @ ''.'' @ ''com''
        \<and> ''user'' \<noteq> [] \<and> list_all local_class ''user''
        \<and> ''example'' \<noteq> [] \<and> list_all domain_class ''example''
        \<and> 2 \<le> length ''com'' \<and> list_all ascii_letter ''com''"
    by (simp add: local_class_def domain_class_def ascii_letter_def less_eq_char_def)
  then show ?thesis unfolding localpart_domain_tld_def by blast
qed

text \<open>
  C10: some accepted input is not of the shape \<^verbatim>\<open>localpart@domain.tld\<close>. Any string of
  that shape followed by one newline is accepted by \<^verbatim>\<open>is_email_format_valid\<close>, because
  \<^verbatim>\<open>$\<close> also matches just before a newline that ends the string, and it is not of that
  shape itself; \<^verbatim>\<open>user@example.com\<close> followed by a newline is such an input.
\<close>

theorem trailing_newline_accepted:
  "localpart_domain_tld s \<Longrightarrow>
     is_email_format_valid (s @ [CHR ''\<newline>''])
     \<and> is_email_format_valid_st (CStr (s @ [CHR ''\<newline>'']))
     \<and> \<not> localpart_domain_tld (s @ [CHR ''\<newline>''])"
  using is_email_format_valid_iff shape_newline_not_shape
  by (auto simp: is_email_format_valid_st_def is_email_format_valid_def)

theorem trailing_newline_accepted_witness:
  "localpart_domain_tld ''user@example.com''
     \<and> is_email_format_valid ''user@example.com\<newline>''
     \<and> is_email_format_valid_st (CStr ''user@example.com\<newline>'')
     \<and> \<not> localpart_domain_tld ''user@example.com\<newline>''"
  using trailing_newline_accepted [OF shape_example] shape_example by simp


section \<open>What the prober returns and whom it contacts\<close>

lemma contacted_append: "contacted (xs @ ys) = contacted xs @ contacted ys"
  by (induction xs rule: contacted.induct) auto

lemma lookups_append: "lookups (xs @ ys) = lookups xs @ lookups ys"
  by (induction xs rule: lookups.induct) auto

lemma smtp_session_contacted:
  "contacted (log (snd (smtp_session net email timeout h st))) = contacted (log st) @ [h]"
  by (simp add: smtp_session_def call_def contacted_append split: prod.splits sum.splits)

lemma smtp_session_lookups:
  "lookups (log (snd (smtp_session net email timeout h st))) = lookups (log st)"
  by (simp add: smtp_session_def call_def lookups_append split: prod.splits sum.splits)

lemma try_mx_records_step:
  "try_mx_records net email timeout (h # rest) st =
     (case smtp_session net email timeout h st of
        (r, st') \<Rightarrow> if accepted r then ((True, ''Email exists''), st')
                    else try_mx_records net email timeout rest st')"
  by (simp split: prod.splits sum.splits)

lemma length_session_outcomes:
  "length (session_outcomes net email timeout mx st) = length mx"
  by (induction mx arbitrary: st) (auto split: prod.splits)

lemma try_mx_records_result:
  "fst (try_mx_records net email timeout mx st) =
     (if \<exists>r \<in> set (session_outcomes net email timeout mx st). accepted r
      then (True, ''Email exists'') else (False, inconclusive_message))"
proof (induction mx arbitrary: st)
  case Nil
  show ?case by simp
next
  case (Cons h rest)
  obtain r st' where s: "smtp_session net email timeout h st = (r, st')"
    by (cases "smtp_session net email timeout h st")
  show ?case
    unfolding try_mx_records_step using s Cons.IH [of st'] by simp
qed

lemma try_mx_records_contacted:
  "contacted (log (snd (try_mx_records net email timeout mx st))) =
     contacted (log st)
     @ take (Suc (length (takeWhile (\<lambda>r. \<not> accepted r) (session_outcomes net email timeout mx st)))) mx"
proof (induction mx arbitrary: st)
  case Nil
  show ?case by simp
next
  case (Cons h rest)
  obtain r st' where s: "smtp_session net email timeout h st = (r, st')"
    by (cases "smtp_session net email timeout h st")
  have c: "contacted (log st') = contacted (log st) @ [h]"
    using smtp_session_contacted [of net email timeout h st] s by simp
  show ?case
    unfolding try_mx_records_step using s c Cons.IH [of st'] by simp
qed

lemma try_mx_records_lookups:
  "lookups (log (snd (try_mx_records net email timeout mx st))) = lookups (log st)"
proof (induction mx arbitrary: st)
  case Nil
  show ?case by simp
next
  case (Cons h rest)
  obtain r st' where s: "smtp_session net email timeout h st = (r, st')"
    by (cases "smtp_session net email timeout h st")
  have c: "lookups (log st') = lookups (log st)"
    using smtp_session_lookups [of net email timeout h st] s by simp
  show ?case
    unfolding try_mx_records_step using s c Cons.IH [of st'] by simp
qed

lemma try_mx_records_message:
  "snd (fst (try_mx_records net email timeout mx st)) \<noteq> missing_at_message
   \<and> snd (fst (try_mx_records net email timeout mx st)) \<noteq> ''Invalid email format''"
  by (simp add: try_mx_records_result missing_at_message_def inconclusive_message_def)

lemma verify_resolved:
  assumes "py_split CHR ''@'' email = [username, domain]"
    and "dns_resolve net domain (world st) = (Inr mx, w1)"
  shows "verify_email_smtp net email timeout st =
           (if mx = [] then ((False, ''No MX records found for domain '' @ domain),
                             \<lparr>world = w1, log = log st @ [Resolve domain]\<rparr>)
            else try_mx_records net email timeout mx \<lparr>world = w1, log = log st @ [Resolve domain]\<rparr>)"
  using assms by (simp add: verify_email_smtp_def call_def)

lemma verify_not_two_parts:
  assumes "length (py_split CHR ''@'' email) \<noteq> 2"
  shows "verify_email_smtp net email timeout st = ((False, missing_at_message), st)"
proof (cases "py_split CHR ''@'' email")
  case Nil
  then show ?thesis by (simp add: verify_email_smtp_def)
next
  case (Cons a as)
  note outer = Cons
  show ?thesis
  proof (cases as)
    case Nil
    with outer show ?thesis by (simp add: verify_email_smtp_def)
  next
    case (Cons b bs)
    with outer assms obtain c cs where "bs = c # cs" by (cases bs) auto
    with outer Cons show ?thesis by (simp add: verify_email_smtp_def)
  qed
qed

lemma verify_two_parts:
  assumes "py_split CHR ''@'' email = [username, domain]"
  shows "snd (fst (verify_email_smtp net email timeout st)) \<noteq> missing_at_message
       \<and> snd (fst (verify_email_smtp net email timeout st)) \<noteq> ''Invalid email format''
       \<and> lookups (log (snd (verify_email_smtp net email timeout st))) = lookups (log st) @ [domain]"
proof -
  obtain r w1 where d: "dns_resolve net domain (world st) = (r, w1)"
    by (cases "dns_resolve net domain (world st)")
  show ?thesis
  proof (cases r)
    case (Inl e)
    with assms d show ?thesis
      by (simp add: verify_email_smtp_def call_def missing_at_message_def lookups_append)
  next
    case (Inr mx)
    with d have "dns_resolve net domain (world st) = (Inr mx, w1)" by simp
    from verify_resolved [OF assms this] show ?thesis
      using try_mx_records_message [of net email timeout mx]
            try_mx_records_lookups [of net email timeout mx]
      by (simp add: missing_at_message_def lookups_append)
  qed
qed

lemma two_parts_iff: "(\<exists>u d. py_split sep s = [u, d]) \<longleftrightarrow> count_list s sep = 1"
proof -
  have "(\<exists>u d. py_split sep s = [u, d]) \<longleftrightarrow> length (py_split sep s) = 2"
    by (auto simp: length_Suc_conv numeral_2_eq_2)
  then show ?thesis by (simp add: length_py_split)
qed


lemmas fixture_defs = scripted_net_def raise_on_no_answer_def example_dns_def start_def call_def smtp_session_def
  verify_email_smtp_def sender_email_def

text \<open>
  C4, as amended: \<^verbatim>\<open>verify_email_smtp\<close> returns the "missing @" error, leaving the state
  as it was (no DNS lookup, no connection), if and only if the string does not contain
  exactly one @, that is, if and only if splitting on @ does not yield exactly two
  parts; either part may be empty. With exactly one @ the MX records of the second part
  are asked for.
\<close>

theorem missing_at_iff_one_at:
  "(fst (verify_email_smtp net email timeout st) = (False, missing_at_message))
      = (count_list email CHR ''@'' \<noteq> 1)
   \<and> (if count_list email CHR ''@'' \<noteq> 1
      then snd (verify_email_smtp net email timeout st) = st
      else (\<exists>username domain. py_split CHR ''@'' email = [username, domain]
              \<and> lookups (log (snd (verify_email_smtp net email timeout st)))
                  = lookups (log st) @ [domain]))"
proof (cases "count_list email CHR ''@'' = 1")
  case True
  then obtain u d where s: "py_split CHR ''@'' email = [u, d]"
    using two_parts_iff [of "CHR ''@''" email] by blast
  from verify_two_parts [OF s, of net timeout st] True s show ?thesis
    by (auto simp: prod_eq_iff)
next
  case False
  then have "length (py_split CHR ''@'' email) \<noteq> 2"
    by (simp add: length_py_split)
  from verify_not_two_parts [OF this, of net timeout st] False show ?thesis by simp
qed

theorem missing_at_iff_one_at_witness:
  "fst (verify_email_smtp (scripted_net example_dns (\<lambda>h. Replies 250)) ''user.example.com'' 15 start)
     = (False, missing_at_message)
   \<and> snd (verify_email_smtp (scripted_net example_dns (\<lambda>h. Replies 250)) ''user.example.com'' 15 start)
     = start
   \<and> fst (verify_email_smtp (scripted_net example_dns (\<lambda>h. Replies 250)) ''a@b@example.com'' 15 start)
     = (False, missing_at_message)
   \<and> lookups (log (snd (verify_email_smtp (scripted_net example_dns (\<lambda>h. Replies 250))
                          ''user@example.com'' 15 start))) = [''example.com'']"
  using missing_at_iff_one_at [of "scripted_net example_dns (\<lambda>h. Replies 250)" "''user.example.com''" 15 start]
    missing_at_iff_one_at [of "scripted_net example_dns (\<lambda>h. Replies 250)" "''a@b@example.com''" 15 start]
    missing_at_iff_one_at [of "scripted_net example_dns (\<lambda>h. Replies 250)" "''user@example.com''" 15 start]
  by (simp add: start_def)

text \<open>
  C4, as stated, fails: \<^verbatim>\<open>@example.com\<close> splits into an empty part and
  \<^verbatim>\<open>example.com\<close>, which are not two non-empty parts, yet the prober goes on to the
  DNS lookup and the handshake, and here even reports success.
\<close>

theorem empty_local_part_counterexample:
  "py_split CHR ''@'' ''@example.com'' = [[], ''example.com'']
   \<and> verify_email_smtp (scripted_net example_dns (\<lambda>h. Replies 250)) ''@example.com'' 15 start
       = ((True, ''Email exists''),
          \<lparr>world = ''mx1.example.com'',
           log = [Resolve ''example.com'', Connect ''mx1.example.com'' 15, Helo,
                  Mail ''emeraldgreen@example.com'', Rcpt ''@example.com'', Quit]\<rparr>)"
  by (simp add: fixture_defs)

lemma verify_resolver_raises:
  assumes "py_split CHR ''@'' email = [username, domain]"
    and "dns_resolve net domain (world st) = (Inl e, w')"
  shows "verify_email_smtp net email timeout st
           = ((False, (if exc_class_of e = DNSException then ''DNS error: ''
                       else ''Error resolving MX records: '') @ exc_str e),
              \<lparr>world = w', log = log st @ [Resolve domain]\<rparr>)"
  using assms by (simp add: verify_email_smtp_def call_def)

text \<open>
  The message "No MX records found for domain ..." belongs to a resolver that hands back
  an empty list. With a resolver that raises on an answer without records, as
  \<^verbatim>\<open>dns.resolver.resolve\<close> does, a domain whose response holds no MX record is reported
  through the handler of \<^verbatim>\<open>DNSException\<close>. Either way the only call made is the lookup.
\<close>

lemma empty_list_from_resolver:
  assumes "py_split CHR ''@'' email = [username, domain]"
    and "dns_resolve net domain (world st) = (Inr [], w')"
  shows "verify_email_smtp net email timeout st
           = ((False, ''No MX records found for domain '' @ domain),
              \<lparr>world = w', log = log st @ [Resolve domain]\<rparr>)"
  using verify_resolved [OF assms, of timeout] by simp

lemma no_record_in_response:
  assumes "py_split CHR ''@'' email = [username, domain]"
    and "response domain (world st) = (Inr [], w')"
  shows "verify_email_smtp (net\<lparr>dns_resolve := raise_on_no_answer response\<rparr>) email timeout st
           = ((False, ''DNS error: '' @ exc_str (no_answer domain)),
              \<lparr>world = w', log = log st @ [Resolve domain]\<rparr>)"
proof -
  have "dns_resolve (net\<lparr>dns_resolve := raise_on_no_answer response\<rparr>) domain (world st)
          = (Inl (no_answer domain), w')"
    using assms(2) by (simp add: raise_on_no_answer_def)
  from verify_resolver_raises [OF assms(1) this, of timeout] show ?thesis
    by (simp add: no_answer_def)
qed

lemma never_an_empty_list:
  "fst (raise_on_no_answer response domain w) \<noteq> Inr []"
  by (simp add: raise_on_no_answer_def split: prod.splits)

text \<open>
  C7: for an address whose domain has no MX record, \<^verbatim>\<open>verify_email_smtp\<close> should return
  failure with the "no MX records" message and contact no mail server. The domain
  \<^verbatim>\<open>nomx.example\<close> has an empty set of MX records; the resolver raises for it, and the
  prober returns the "DNS error" message with the text of the resolver, whatever the
  mail servers would do. The only call made is the lookup.
\<close>

theorem zero_mx_reported_as_dns_error:
  "example_dns ''nomx.example'' = Inr []
   \<and> verify_email_smtp (scripted_net example_dns script) ''user@nomx.example'' timeout st
       = ((False, ''DNS error: The DNS response does not contain an answer to the question: nomx.example. IN MX''),
          \<lparr>world = world st, log = log st @ [Resolve ''nomx.example'']\<rparr>)
   \<and> contacted (log (snd (verify_email_smtp (scripted_net example_dns script)
                            ''user@nomx.example'' timeout st))) = contacted (log st)"
proof -
  have 1: "py_split CHR ''@'' ''user@nomx.example'' = [''user'', ''nomx.example'']" by simp
  let ?response = "\<lambda>d (w::string). (example_dns d, w)"
  have 2: "?response ''nomx.example'' (world st) = (Inr [], world st)"
    by (simp add: example_dns_def)
  have 3: "scripted_net example_dns script
             = (scripted_net example_dns script)
                 \<lparr>dns_resolve := raise_on_no_answer (\<lambda>d w. (example_dns d, w))\<rparr>"
    by (simp add: scripted_net_def)
  have "verify_email_smtp (scripted_net example_dns script) ''user@nomx.example'' timeout st
       = ((False, ''DNS error: '' @ exc_str (no_answer ''nomx.example'')),
          \<lparr>world = world st, log = log st @ [Resolve ''nomx.example'']\<rparr>)"
    using no_record_in_response [where response="?response" and domain="''nomx.example''"
        and net="scripted_net example_dns script" and timeout=timeout, OF 1 2] 3
    by simp
  then show ?thesis
    by (simp add: no_answer_def example_dns_def contacted_append)
qed

text \<open>
  C9: a string accepted by \<^verbatim>\<open>is_email_format_valid\<close> contains exactly one @ and splits
  on it into two non-empty parts, and \<^verbatim>\<open>check_email\<close> on it reaches the DNS lookup for
  the second part; so the result of \<^verbatim>\<open>check_email\<close> never carries the "missing @"
  message, for any string at all: a string that is not accepted gets the message of the
  format check.
\<close>

theorem format_valid_never_missing_at:
  "(is_email_format_valid email \<longrightarrow>
      count_list email CHR ''@'' = 1
      \<and> (\<exists>username domain. py_split CHR ''@'' email = [username, domain]
            \<and> username \<noteq> [] \<and> domain \<noteq> []
            \<and> lookups (log (snd (check_email net email st))) = lookups (log st) @ [domain]))
   \<and> (\<not> is_email_format_valid email \<longrightarrow>
        check_email net email st = ((False, ''Invalid email format''), st))
   \<and> snd (fst (check_email net email st)) \<noteq> missing_at_message"
proof (cases "is_email_format_valid email")
  case True
  from valid_split [OF True] obtain u d where
    s: "py_split CHR ''@'' email = [u, d]" "u \<noteq> []" "d \<noteq> []" by blast
  then have c: "count_list email CHR ''@'' = 1"
    using two_parts_iff [of "CHR ''@''" email] by blast
  have k: "check_email net email st = verify_email_smtp net email 15 st"
    using True by (simp add: check_email_def)
  from verify_two_parts [OF s(1), of net 15 st] s c k True show ?thesis by simp
next
  case False
  then show ?thesis by (simp add: check_email_def missing_at_message_def)
qed

theorem format_valid_never_missing_at_witness:
  "is_email_format_valid ''user@example.com''
   \<and> count_list ''user@example.com'' CHR ''@'' = 1
   \<and> py_split CHR ''@'' ''user@example.com'' = [''user'', ''example.com'']
   \<and> lookups (log (snd (check_email (scripted_net example_dns (\<lambda>h. Replies 250))
                         ''user@example.com'' start))) = [''example.com'']
   \<and> snd (fst (check_email (scripted_net example_dns (\<lambda>h. Replies 250)) ''user@example.com'' start))
       \<noteq> missing_at_message
   \<and> \<not> is_email_format_valid ''not-an-email''
   \<and> check_email (scripted_net example_dns (\<lambda>h. Replies 250)) ''not-an-email'' start
       = ((False, ''Invalid email format''), start)
   \<and> snd (fst (check_email (scripted_net example_dns (\<lambda>h. Replies 250)) ''not-an-email'' start))
       \<noteq> missing_at_message"
proof -
  have v: "is_email_format_valid ''user@example.com''"
    using is_email_format_valid_iff shape_example by blast
  have n: "\<not> is_email_format_valid ''not-an-email''"
    using valid_has_at [of "''not-an-email''"] by auto
  show ?thesis
    using v n
      format_valid_never_missing_at [of "''user@example.com''" "scripted_net example_dns (\<lambda>h. Replies 250)" start]
      format_valid_never_missing_at [of "''not-an-email''" "scripted_net example_dns (\<lambda>h. Replies 250)" start]
    by (simp add: start_def missing_at_message_def)
qed

lemma takeWhile_first:
  assumes "k < length xs" "\<not> P (xs ! k)" "\<forall>j<k. P (xs ! j)"
  shows "length (takeWhile P xs) = k"
proof -
  have "takeWhile P xs = take k xs"
    using assms by (intro takeWhile_eq_take_P_nth) auto
  with assms(1) show ?thesis by simp
qed

text \<open>
  C1, as amended: if the MX records resolve and the attempt at some server of the list
  runs to the end with the reply code 250 to the recipient declaration (the closing
  \<^verbatim>\<open>quit\<close> included), then \<^verbatim>\<open>verify_email_smtp\<close> returns \<^verbatim>\<open>(True, "Email exists")\<close> at
  the first such server: the servers contacted are exactly those of the list up to and
  including it, in order.
\<close>

theorem accepted_at_first_accepting_host:
  assumes "py_split CHR ''@'' email = [username, domain]"
    and "dns_resolve net domain (world st) = (Inr mx_records, w1)"
    and "outs = session_outcomes net email timeout mx_records
                  \<lparr>world = w1, log = log st @ [Resolve domain]\<rparr>"
    and "k < length mx_records"
    and "accepted (outs ! k)"
    and "\<forall>j<k. \<not> accepted (outs ! j)"
  shows "fst (verify_email_smtp net email timeout st) = (True, ''Email exists'')
       \<and> contacted (log (snd (verify_email_smtp net email timeout st)))
           = contacted (log st) @ take (Suc k) mx_records"
proof -
  let ?st1 = "\<lparr>world = w1, log = log st @ [Resolve domain]\<rparr>"
  from assms(4) have ne: "mx_records \<noteq> []" by auto
  have v: "verify_email_smtp net email timeout st = try_mx_records net email timeout mx_records ?st1"
    using verify_resolved [OF assms(1,2), of timeout] ne by simp
  have len: "length outs = length mx_records"
    using assms(3) by (simp add: length_session_outcomes)
  with assms(4) have "outs ! k \<in> set outs" by simp
  with assms(5) have ex: "\<exists>r\<in>set outs. accepted r" by blast
  have tw: "length (takeWhile (\<lambda>r. \<not> accepted r) outs) = k"
    using assms(4,5,6) len by (intro takeWhile_first) auto
  show ?thesis
    unfolding v try_mx_records_result try_mx_records_contacted
    using ex tw assms(3) by (simp add: contacted_append)
qed

theorem accepted_at_first_accepting_host_witness:
  "fst (verify_email_smtp
          (scripted_net example_dns (\<lambda>h. if h = ''mx1.example.com'' then Replies 250 else Replies 550))
          ''user@example.com'' 15 start) = (True, ''Email exists'')
   \<and> contacted (log (snd (verify_email_smtp
          (scripted_net example_dns (\<lambda>h. if h = ''mx1.example.com'' then Replies 250 else Replies 550))
          ''user@example.com'' 15 start))) = [''mx1.example.com'']"
proof -
  let ?net = "scripted_net example_dns (\<lambda>h. if h = ''mx1.example.com'' then Replies 250 else Replies 550)"
  let ?mx = "[''mx1.example.com'', ''mx2.example.com'']"
  let ?outs = "session_outcomes ?net ''user@example.com'' 15 ?mx
                 \<lparr>world = world start, log = log start @ [Resolve ''example.com'']\<rparr>"
  have 1: "py_split CHR ''@'' ''user@example.com'' = [''user'', ''example.com'']" by simp
  have 2: "dns_resolve ?net ''example.com'' (world start) = (Inr ?mx, world start)"
    by (simp add: scripted_net_def raise_on_no_answer_def example_dns_def)
  have 3: "?outs = ?outs" by simp
  have 4: "0 < length ?mx" by simp
  have 5: "accepted (?outs ! 0)"
    by (simp add: scripted_net_def smtp_session_def call_def)
  have 6: "\<forall>j<0. \<not> accepted (?outs ! j)" by simp
  show ?thesis
    using accepted_at_first_accepting_host [OF 1 2 3 4 5 6] by (simp add: start_def)
qed

text \<open>
  C1, as stated, fails: both servers reply 250 to the recipient declaration and then
  drop the connection, so that \<^verbatim>\<open>smtp.quit()\<close> raises inside the \<^verbatim>\<open>try\<close>; the prober
  moves on each time and ends with the inconclusive failure.
\<close>

theorem accepted_then_dropped_counterexample:
  "fst (smtp_rcpt (scripted_net example_dns (\<lambda>h. RepliesThenDrops 250))
          ''user@example.com'' ''mx1.example.com'') = Inr (250, [])
   \<and> fst (smtp_rcpt (scripted_net example_dns (\<lambda>h. RepliesThenDrops 250))
          ''user@example.com'' ''mx2.example.com'') = Inr (250, [])
   \<and> verify_email_smtp (scripted_net example_dns (\<lambda>h. RepliesThenDrops 250))
        ''user@example.com'' 15 start
       = ((False, inconclusive_message),
          \<lparr>world = ''mx2.example.com'',
           log = [Resolve ''example.com'',
                  Connect ''mx1.example.com'' 15, Helo, Mail ''emeraldgreen@example.com'',
                  Rcpt ''user@example.com'', Quit,
                  Connect ''mx2.example.com'' 15, Helo, Mail ''emeraldgreen@example.com'',
                  Rcpt ''user@example.com'', Quit]\<rparr>)"
  by (simp add: fixture_defs)



text \<open>
  C3, as stated, fails: the first server completes the handshake and replies 550; the
  prober does not return there but contacts the second server, which replies 250, and
  returns success.
\<close>

theorem rejecting_host_passed_over_counterexample:
  "fst (smtp_session
          (scripted_net example_dns (\<lambda>h. if h = ''mx1.example.com'' then Replies 550 else Replies 250))
          ''user@example.com'' 15 ''mx1.example.com''
          \<lparr>world = [], log = [Resolve ''example.com'']\<rparr>) = Inr (550, [])
   \<and> verify_email_smtp
        (scripted_net example_dns (\<lambda>h. if h = ''mx1.example.com'' then Replies 550 else Replies 250))
        ''user@example.com'' 15 start
       = ((True, ''Email exists''),
          \<lparr>world = ''mx2.example.com'',
           log = [Resolve ''example.com'',
                  Connect ''mx1.example.com'' 15, Helo, Mail ''emeraldgreen@example.com'',
                  Rcpt ''user@example.com'', Quit,
                  Connect ''mx2.example.com'' 15, Helo, Mail ''emeraldgreen@example.com'',
                  Rcpt ''user@example.com'', Quit]\<rparr>)"
  by (simp add: fixture_defs)

text \<open>
  C3, as amended: for a list of MX records that is not empty the prober returns success
  if and only if the attempt at some server ends with the reply code 250, and failure
  with the inconclusive message otherwise; the servers it contacts are those of the list
  up to and including the first such server, in order, and so all of them before a
  failure. A server that answers with any other code is passed over like one that
  raised.
\<close>

theorem returns_at_first_acceptance:
  assumes "py_split CHR ''@'' email = [username, domain]"
    and "dns_resolve net domain (world st) = (Inr mx_records, w1)"
    and "mx_records \<noteq> []"
    and "outs = session_outcomes net email timeout mx_records
                  \<lparr>world = w1, log = log st @ [Resolve domain]\<rparr>"
  shows "fst (verify_email_smtp net email timeout st)
           = (if \<exists>r \<in> set outs. accepted r then (True, ''Email exists'')
              else (False, inconclusive_message))
       \<and> contacted (log (snd (verify_email_smtp net email timeout st)))
           = contacted (log st)
             @ take (Suc (length (takeWhile (\<lambda>r. \<not> accepted r) outs))) mx_records"
proof -
  let ?st1 = "\<lparr>world = w1, log = log st @ [Resolve domain]\<rparr>"
  have v: "verify_email_smtp net email timeout st = try_mx_records net email timeout mx_records ?st1"
    using verify_resolved [OF assms(1,2), of timeout] assms(3) by simp
  show ?thesis
    unfolding v try_mx_records_result try_mx_records_contacted assms(4)
    by (simp add: contacted_append)
qed

theorem returns_at_first_acceptance_witness:
  "fst (verify_email_smtp
          (scripted_net example_dns (\<lambda>h. if h = ''mx1.example.com'' then Replies 550 else Replies 250))
          ''user@example.com'' 15 start) = (True, ''Email exists'')
   \<and> contacted (log (snd (verify_email_smtp
          (scripted_net example_dns (\<lambda>h. if h = ''mx1.example.com'' then Replies 550 else Replies 250))
          ''user@example.com'' 15 start))) = [''mx1.example.com'', ''mx2.example.com'']"
proof -
  let ?net = "scripted_net example_dns (\<lambda>h. if h = ''mx1.example.com'' then Replies 550 else Replies 250)"
  let ?mx = "[''mx1.example.com'', ''mx2.example.com'']"
  let ?outs = "session_outcomes ?net ''user@example.com'' 15 ?mx
                 \<lparr>world = world start, log = log start @ [Resolve ''example.com'']\<rparr>"
  have 1: "py_split CHR ''@'' ''user@example.com'' = [''user'', ''example.com'']" by simp
  have 2: "dns_resolve ?net ''example.com'' (world start) = (Inr ?mx, world start)"
    by (simp add: scripted_net_def raise_on_no_answer_def example_dns_def)
  have 3: "?mx \<noteq> []" by simp
  have 4: "?outs = ?outs" by simp
  have 5: "?outs = [Inr (550, []), Inr (250, [])]"
    by (simp add: scripted_net_def smtp_session_def call_def start_def)
  show ?thesis
    using returns_at_first_acceptance [OF 1 2 3 4] unfolding 5 by (simp add: start_def)
qed




section \<open>The table the batch driver produces\<close>

lemma not_an_email_invalid: "\<not> is_email_format_valid ''not-an-email''"
  using valid_has_at [of "''not-an-email''"] by auto

text \<open>
  C8: the table the batch driver produces should hold, besides the columns of the input,
  the five columns \<^verbatim>\<open>format_valid\<close>, \<^verbatim>\<open>reachable\<close>, \<^verbatim>\<open>validation_message\<close>,
  \<^verbatim>\<open>username\<close> and \<^verbatim>\<open>domain\<close> on every run. The code sets the first three before the
  loop and the last two only in the branch of a format-valid record: for a table whose
  single record is \<^verbatim>\<open>not-an-email\<close> the columns of the result are the input column
  and the first three, on any network.
\<close>

theorem username_domain_columns_missing:
  "map_sum id columns
     (fst (validate_emails net ''email''
             \<lparr>columns = [''email''], rows = [[''email'' \<mapsto> CStr ''not-an-email'']]\<rparr> st))
     = Inr [''email'', ''format_valid'', ''reachable'', ''validation_message'']
   \<and> snd (validate_emails net ''email''
             \<lparr>columns = [''email''], rows = [[''email'' \<mapsto> CStr ''not-an-email'']]\<rparr> st) = st"
  using not_an_email_invalid
  by (simp add: validate_emails_def add_result_columns_def set_column_def enumerate_eq_zip
      validate_row_def set_at_def put_def column_dtype_def column_cells_def
      is_email_format_valid_st_def is_email_format_valid_def)

lemma length_rows_put: "length (rows (put i k v df)) = length (rows df)"
  by (simp add: put_def Let_def)

lemma columns_put: "set (columns (put i k v df)) = insert k (set (columns df))"
  by (auto simp: put_def Let_def)

lemma nth_rows_put:
  "j < length (rows df) \<Longrightarrow>
     (rows (put i k v df) ! j) k' =
       (if k' = k then (if j = i then Some v
                        else if k \<in> set (columns df) then (rows df ! j) k else Some CNaN)
        else (rows df ! j) k')"
  by (simp add: put_def Let_def nth_list_update)

lemma length_column_cells: "length (column_cells k df) = length (rows df)"
  by (simp add: column_cells_def)

lemma nth_column_cells:
  "j < length (rows df) \<Longrightarrow>
     column_cells k df ! j = (case (rows df ! j) k of None \<Rightarrow> CNaN | Some c \<Rightarrow> c)"
  by (simp add: column_cells_def)

lemma column_cells_put_other:
  assumes "k' \<noteq> k"
  shows "column_cells k' (put i k v df) = column_cells k' df"
proof (rule nth_equalityI)
  show "length (column_cells k' (put i k v df)) = length (column_cells k' df)"
    by (simp add: length_column_cells length_rows_put)
next
  fix j assume "j < length (column_cells k' (put i k v df))"
  then have j: "j < length (rows df)" by (simp add: length_column_cells length_rows_put)
  then show "column_cells k' (put i k v df) ! j = column_cells k' df ! j"
    using assms by (simp add: nth_column_cells length_rows_put nth_rows_put)
qed

lemma column_dtype_put_other:
  "k' \<noteq> k \<Longrightarrow> column_dtype k' (put i k v df) = column_dtype k' df"
  by (simp add: column_dtype_def column_cells_put_other)

lemma column_cells_put_same:
  assumes "i < length (rows df)"
  shows "v \<in> set (column_cells k (put i k v df))"
proof -
  have "column_cells k (put i k v df) ! i = v"
    using assms by (simp add: nth_column_cells length_rows_put nth_rows_put)
  moreover have "i < length (column_cells k (put i k v df))"
    using assms by (simp add: length_column_cells length_rows_put)
  ultimately show ?thesis by (metis nth_mem)
qed

lemma not_list_all: "x \<in> set xs \<Longrightarrow> \<not> P x \<Longrightarrow> \<not> list_all P xs"
  by (auto simp: list_all_iff)

lemma column_dtype_put_str:
  assumes "i < length (rows df)"
  shows "column_dtype k (put i k (CStr s) df) = DObject"
proof -
  from column_cells_put_same [OF assms]
  have m: "CStr s \<in> set (column_cells k (put i k (CStr s) df))" .
  then have "\<not> list_all is_bool (column_cells k (put i k (CStr s) df))"
    and "\<not> list_all is_numeric (column_cells k (put i k (CStr s) df))"
    by (rule not_list_all, simp)+
  then show ?thesis by (simp add: column_dtype_def)
qed

lemma column_dtype_put_bool:
  assumes "i < length (rows df)"
  shows "column_dtype k (put i k (CBool b) df) \<noteq> DNumeric"
proof -
  from column_cells_put_same [OF assms]
  have m: "CBool b \<in> set (column_cells k (put i k (CBool b) df))" .
  then have "\<not> list_all is_numeric (column_cells k (put i k (CBool b) df))"
    by (rule not_list_all) simp
  then show ?thesis by (simp add: column_dtype_def)
qed

lemma takes_strings_put:
  assumes "takes_strings c df" and "i < length (rows df)"
    and "k = c \<longrightarrow> is_str"
    and "v = (if is_str then CStr s else CBool b)"
  shows "takes_strings c (put i k v df)"
proof (cases "k = c")
  case True
  with assms(3,4) have "v = CStr s" by simp
  with True assms(2) show ?thesis
    by (simp add: takes_strings_def column_dtype_put_str)
next
  case False
  then have "c \<noteq> k" by simp
  with assms(1) show ?thesis
    by (auto simp: takes_strings_def column_dtype_put_other columns_put)
qed

lemma takes_bools_put:
  assumes "takes_bools c df" and "i < length (rows df)"
    and "v = CStr s \<or> v = CBool b"
  shows "takes_bools c (put i k v df)"
proof (cases "k = c")
  case True
  from assms(3) show ?thesis
  proof
    assume "v = CStr s"
    with True assms(2) show ?thesis
      by (simp add: takes_bools_def column_dtype_put_str)
  next
    assume "v = CBool b"
    with True assms(2) show ?thesis
      using column_dtype_put_bool [OF assms(2), of c b]
      by (simp add: takes_bools_def)
  qed
next
  case False
  then have "c \<noteq> k" by simp
  with assms(1) show ?thesis
    by (auto simp: takes_bools_def column_dtype_put_other columns_put)
qed

lemma ready_put_str:
  assumes "ready df" and "i < length (rows df)"
  shows "ready (put i k (CStr s) df)"
proof -
  have ts: "\<And>c. takes_strings c df \<Longrightarrow> takes_strings c (put i k (CStr s) df)"
    using takes_strings_put [where is_str=True and v="CStr s" and s=s, OF _ assms(2)] by simp
  have tb: "\<And>c. takes_bools c df \<Longrightarrow> takes_bools c (put i k (CStr s) df)"
    using takes_bools_put [where v="CStr s" and s=s, OF _ assms(2)] by simp
  from assms(1) ts tb show ?thesis
    by (auto simp: ready_def columns_put)
qed

lemma ready_put_bool:
  assumes "ready df" and "i < length (rows df)"
    and "k = ''format_valid'' \<or> k = ''reachable''"
  shows "ready (put i k (CBool b) df)"
proof -
  have ts: "\<And>c. c \<noteq> k \<Longrightarrow> takes_strings c df \<Longrightarrow> takes_strings c (put i k (CBool b) df)"
    using takes_strings_put [where is_str=False and v="CBool b" and b=b, OF _ assms(2)] by simp
  have tb: "\<And>c. takes_bools c df \<Longrightarrow> takes_bools c (put i k (CBool b) df)"
    using takes_bools_put [where v="CBool b" and b=b, OF _ assms(2)] by simp
  from assms(3) have ne: "''validation_message'' \<noteq> k" "''username'' \<noteq> k" "''domain'' \<noteq> k"
    by auto
  from assms(1) ts [OF ne(1)] ts [OF ne(2)] ts [OF ne(3)] tb show ?thesis
    by (auto simp: ready_def columns_put)
qed

lemma set_at_str:
  "takes_strings k df \<Longrightarrow> set_at i k (CStr s) df = Inr (put i k (CStr s) df)"
  by (auto simp: set_at_def takes_strings_def)

lemma set_at_bool:
  "takes_bools k df \<Longrightarrow> set_at i k (CBool b) df = Inr (put i k (CBool b) df)"
  by (cases "column_dtype k df") (auto simp: set_at_def takes_bools_def)

lemma ready_columns:
  assumes "ready df"
  shows "''validation_message'' \<in> set (columns df)" "''format_valid'' \<in> set (columns df)"
    "''reachable'' \<in> set (columns df)"
  using assms by (auto simp: ready_def result_columns_def)

lemma validate_row_step:
  assumes i: "i < length (rows df)"
    and c: "row col = Some c"
    and ready: "ready df"
  shows "\<exists>df'. validate_row net col i row df st
             = (Inr df', if is_email_format_valid (py_str c)
                         then snd (verify_email_smtp net (py_str c) 15 st) else st)
          \<and> length (rows df') = length (rows df)
          \<and> ready df'
          \<and> (\<forall>j<length (rows df). j \<noteq> i \<longrightarrow>
                (rows df' ! j) ''reachable'' = (rows df ! j) ''reachable''
                \<and> (rows df' ! j) ''validation_message'' = (rows df ! j) ''validation_message'')
          \<and> (flagged (rows df' ! i) \<longleftrightarrow>
                \<not> is_email_format_valid (py_str c)
                \<and> (rows df ! i) ''reachable'' = Some (CBool False))"
proof (cases "is_email_format_valid (py_str c)")
  case False
  let ?df1 = "put i ''format_valid'' (CBool False) df"
  let ?df' = "put i ''validation_message'' (CStr ''Invalid email format'') ?df1"
  have r1: "ready ?df1" using ready i by (simp add: ready_put_bool)
  have i1: "i < length (rows ?df1)" using i by (simp add: length_rows_put)
  have s1: "set_at i ''format_valid'' (CBool False) df = Inr ?df1"
    using ready by (simp add: set_at_bool ready_def)
  have s2: "set_at i ''validation_message'' (CStr ''Invalid email format'') ?df1 = Inr ?df'"
    using r1 by (simp add: set_at_str ready_def)
  have r: "validate_row net col i row df st = (Inr ?df', st)"
    using c False s1 s2 by (simp add: validate_row_def is_email_format_valid_st_def
        is_email_format_valid_def)
  note vm = ready_columns [OF ready]
  have 1: "length (rows ?df') = length (rows df)" by (simp add: length_rows_put)
  have 2: "ready ?df'" using r1 i1 by (rule ready_put_str)
  have 3: "\<forall>j<length (rows df). j \<noteq> i \<longrightarrow>
             (rows ?df' ! j) ''reachable'' = (rows df ! j) ''reachable''
             \<and> (rows ?df' ! j) ''validation_message'' = (rows df ! j) ''validation_message''"
    using vm by (simp add: nth_rows_put length_rows_put columns_put)
  have 4: "flagged (rows ?df' ! i) \<longleftrightarrow> (rows df ! i) ''reachable'' = Some (CBool False)"
    using i by (simp add: flagged_def nth_rows_put length_rows_put)
  show ?thesis using r 1 2 3 4 False by simp
next
  case True
  from valid_split [OF True] obtain u d where s: "py_split CHR ''@'' (py_str c) = [u, d]"
    by blast
  obtain b m st' where v: "verify_email_smtp net (py_str c) 15 st = ((b, m), st')"
    by (metis surj_pair)
  have m: "m \<noteq> ''Invalid email format''"
    using verify_two_parts [OF s, of net 15 st] v by simp
  let ?df1 = "put i ''format_valid'' (CBool True) df"
  let ?df2 = "put i ''username'' (CStr u) ?df1"
  let ?df3 = "put i ''domain'' (CStr d) ?df2"
  let ?df4 = "put i ''reachable'' (CBool b) ?df3"
  let ?df' = "put i ''validation_message'' (CStr m) ?df4"
  have r1: "ready ?df1" using ready i by (simp add: ready_put_bool)
  have i1: "i < length (rows ?df1)" using i by (simp add: length_rows_put)
  have r2: "ready ?df2" using r1 i1 by (rule ready_put_str)
  have i2: "i < length (rows ?df2)" using i by (simp add: length_rows_put)
  have r3: "ready ?df3" using r2 i2 by (rule ready_put_str)
  have i3: "i < length (rows ?df3)" using i by (simp add: length_rows_put)
  have r4: "ready ?df4" using r3 i3 by (simp add: ready_put_bool)
  have i4: "i < length (rows ?df4)" using i by (simp add: length_rows_put)
  have s1: "set_at i ''format_valid'' (CBool True) df = Inr ?df1"
    using ready by (simp add: set_at_bool ready_def)
  have s2: "set_at i ''username'' (CStr u) ?df1 = Inr ?df2"
    using r1 by (simp add: set_at_str ready_def)
  have s3: "set_at i ''domain'' (CStr d) ?df2 = Inr ?df3"
    using r2 by (simp add: set_at_str ready_def)
  have s4: "set_at i ''reachable'' (CBool b) ?df3 = Inr ?df4"
    using r3 by (simp add: set_at_bool ready_def)
  have s5: "set_at i ''validation_message'' (CStr m) ?df4 = Inr ?df'"
    using r4 by (simp add: set_at_str ready_def)
  have r: "validate_row net col i row df st = (Inr ?df', st')"
    using c True s v s1 s2 s3 s4 s5
    by (simp add: validate_row_def is_email_format_valid_st_def
        is_email_format_valid_def and_then_def)
  note vm = ready_columns [OF ready]
  have 1: "length (rows ?df') = length (rows df)" by (simp add: length_rows_put)
  have 2: "ready ?df'" using r4 i4 by (rule ready_put_str)
  have 3: "\<forall>j<length (rows df). j \<noteq> i \<longrightarrow>
             (rows ?df' ! j) ''reachable'' = (rows df ! j) ''reachable''
             \<and> (rows ?df' ! j) ''validation_message'' = (rows df ! j) ''validation_message''"
    using vm by (simp add: nth_rows_put length_rows_put columns_put)
  have 4: "\<not> flagged (rows ?df' ! i)"
    using i m by (simp add: flagged_def nth_rows_put length_rows_put)
  show ?thesis using r 1 2 3 4 True v by simp
qed

lemma validate_rows_loop:
  assumes "distinct (map fst items)"
    and "\<forall>(i, row) \<in> set items. i < length (rows df) \<and> row col \<noteq> None
            \<and> (rows df ! i) ''reachable'' = Some (CBool False)"
    and "ready df"
  shows "\<exists>out. validate_rows net col items df st
             = (Inr out, probe_all net (filter is_email_format_valid
                                         (map (address col) (map snd items))) st)
          \<and> length (rows out) = length (rows df)
          \<and> (\<forall>j<length (rows df). j \<notin> fst ` set items \<longrightarrow>
                (rows out ! j) ''reachable'' = (rows df ! j) ''reachable''
                \<and> (rows out ! j) ''validation_message'' = (rows df ! j) ''validation_message'')
          \<and> (\<forall>(i, row) \<in> set items.
                flagged (rows out ! i) \<longleftrightarrow> \<not> is_email_format_valid (address col row))"
  using assms
proof (induction items arbitrary: df st)
  case Nil
  show ?case by simp
next
  case (Cons item items)
  obtain i row where item: "item = (i, row)" by (cases item)
  from Cons.prems(2) item obtain c where
    i: "i < length (rows df)" and c: "row col = Some c"
    and reach: "(rows df ! i) ''reachable'' = Some (CBool False)"
    by auto
  have addr: "address col row = py_str c" using c by (simp add: address_def)
  let ?st1 = "if is_email_format_valid (py_str c)
              then snd (verify_email_smtp net (py_str c) 15 st) else st"
  from validate_row_step [where i=i and df=df and row=row and col=col and c=c and net=net and st=st,
      OF i c Cons.prems(3)] obtain df1 where
    step: "validate_row net col i row df st = (Inr df1, ?st1)"
    and len1: "length (rows df1) = length (rows df)"
    and ready1: "ready df1"
    and other1: "\<forall>j<length (rows df). j \<noteq> i \<longrightarrow>
                (rows df1 ! j) ''reachable'' = (rows df ! j) ''reachable''
                \<and> (rows df1 ! j) ''validation_message'' = (rows df ! j) ''validation_message''"
    and flag1: "flagged (rows df1 ! i) \<longleftrightarrow>
                \<not> is_email_format_valid (py_str c)
                \<and> (rows df ! i) ''reachable'' = Some (CBool False)"
    by blast
  have notin: "i \<notin> fst ` set items" and dist: "distinct (map fst items)"
    using Cons.prems(1) item by auto
  have pre: "\<forall>(i', row') \<in> set items. i' < length (rows df1) \<and> row' col \<noteq> None
            \<and> (rows df1 ! i') ''reachable'' = Some (CBool False)"
  proof (clarify)
    fix i' row' assume m: "(i', row') \<in> set items"
    with notin have ne: "i' \<noteq> i" by force
    from m Cons.prems(2) have p: "i' < length (rows df)" "row' col \<noteq> None"
      "(rows df ! i') ''reachable'' = Some (CBool False)" by auto
    with other1 ne have "(rows df1 ! i') ''reachable'' = Some (CBool False)" by simp
    with p len1 show "i' < length (rows df1) \<and> row' col \<noteq> None
            \<and> (rows df1 ! i') ''reachable'' = Some (CBool False)" by simp
  qed
  from Cons.IH [OF dist pre ready1, of ?st1] obtain out where
    run: "validate_rows net col items df1 ?st1
            = (Inr out, probe_all net (filter is_email_format_valid
                                        (map (address col) (map snd items))) ?st1)"
    and len: "length (rows out) = length (rows df1)"
    and other: "\<forall>j<length (rows df1). j \<notin> fst ` set items \<longrightarrow>
                (rows out ! j) ''reachable'' = (rows df1 ! j) ''reachable''
                \<and> (rows out ! j) ''validation_message'' = (rows df1 ! j) ''validation_message''"
    and flags: "\<forall>(i', row') \<in> set items.
                flagged (rows out ! i') \<longleftrightarrow> \<not> is_email_format_valid (address col row')"
    by blast
  have A: "validate_rows net col (item # items) df st
             = (Inr out, probe_all net (filter is_email_format_valid
                                         (map (address col) (map snd (item # items)))) st)"
    using item step run addr by simp
  have B: "length (rows out) = length (rows df)" using len len1 by simp
  have C: "\<forall>j<length (rows df). j \<notin> fst ` set (item # items) \<longrightarrow>
                (rows out ! j) ''reachable'' = (rows df ! j) ''reachable''
                \<and> (rows out ! j) ''validation_message'' = (rows df ! j) ''validation_message''"
    using other other1 len1 item by simp
  have "flagged (rows out ! i) \<longleftrightarrow> flagged (rows df1 ! i)"
    using other notin i len1 by (simp add: flagged_def)
  with flag1 reach addr have D0: "flagged (rows out ! i) \<longleftrightarrow> \<not> is_email_format_valid (address col row)"
    by simp
  have D: "\<forall>(i', row') \<in> set (item # items).
                flagged (rows out ! i') \<longleftrightarrow> \<not> is_email_format_valid (address col row')"
    using D0 flags item by simp
  from A B C D show ?case by blast
qed

lemma rows_add_result_columns:
  "rows (add_result_columns df) =
     map (\<lambda>r. r(''format_valid'' \<mapsto> CBool False, ''reachable'' \<mapsto> CBool False,
                ''validation_message'' \<mapsto> CStr [])) (rows df)"
  by (simp add: add_result_columns_def set_column_def)

lemma columns_add_result_columns:
  "set (columns (add_result_columns df)) = set (columns df) \<union> result_columns"
  by (auto simp: add_result_columns_def set_column_def result_columns_def)

lemma column_cells_add_result_columns:
  "k \<notin> result_columns \<Longrightarrow> column_cells k (add_result_columns df) = column_cells k df"
  by (simp add: column_cells_def rows_add_result_columns result_columns_def)

lemma column_dtype_add_result_columns:
  "k \<notin> result_columns \<Longrightarrow> column_dtype k (add_result_columns df) = column_dtype k df"
  by (simp add: column_dtype_def column_cells_add_result_columns)

lemma address_add_result_columns:
  "email_col \<notin> result_columns \<Longrightarrow>
     map (address email_col) (rows (add_result_columns df)) = map (address email_col) (rows df)"
  by (simp add: rows_add_result_columns address_def result_columns_def)

lemma ready_add_result_columns:
  assumes "rows df \<noteq> []"
    and "takes_strings ''username'' df" and "takes_strings ''domain'' df"
  shows "ready (add_result_columns df)"
proof -
  let ?df0 = "add_result_columns df"
  from assms(1) obtain r rs where rs: "rows df = r # rs" by (cases "rows df") auto
  have fv: "column_dtype ''format_valid'' ?df0 = DBool"
    by (simp add: column_dtype_def column_cells_def rows_add_result_columns list_all_iff)
  have re: "column_dtype ''reachable'' ?df0 = DBool"
    by (simp add: column_dtype_def column_cells_def rows_add_result_columns list_all_iff)
  have vm: "column_dtype ''validation_message'' ?df0 = DObject"
    using rs by (simp add: column_dtype_def column_cells_def rows_add_result_columns)
  have "''username'' \<notin> result_columns" "''domain'' \<notin> result_columns"
    by (simp_all add: result_columns_def)
  then have un: "takes_strings ''username'' ?df0" and dn: "takes_strings ''domain'' ?df0"
    using assms(2,3)
    by (simp_all add: takes_strings_def column_dtype_add_result_columns
        columns_add_result_columns)
  show ?thesis
    using fv re vm un dn
    by (simp add: ready_def takes_bools_def takes_strings_def columns_add_result_columns)
qed

lemma count_flagged:
  assumes "map P xs = map Q ys"
  shows "length (filter P xs) = length (filter Q ys)"
proof -
  have "length (filter P xs) = length (filter id (map P xs))"
    by (simp add: comp_def)
  also have "\<dots> = length (filter id (map Q ys))" using assms by simp
  also have "\<dots> = length (filter Q ys)" by (simp add: comp_def)
  finally show ?thesis .
qed

lemma validate_emails_run:
  assumes "rows df \<noteq> []" and "email_col \<noteq> []" and "email_col \<in> set (columns df)"
    and "well_formed df"
    and "takes_strings ''username'' df" and "takes_strings ''domain'' df"
  shows "\<exists>out. validate_emails net email_col df st
             = (Inr out, probe_all net (filter is_email_format_valid
                           (map (address email_col) (rows (add_result_columns df)))) st)
          \<and> length (rows out) = length (rows df)
          \<and> map flagged (rows out)
              = map (\<lambda>r. \<not> is_email_format_valid (address email_col r))
                  (rows (add_result_columns df))"
proof -
  let ?df0 = "add_result_columns df"
  let ?items = "enumerate 0 (rows ?df0)"
  have len0: "length (rows ?df0) = length (rows df)"
    by (simp add: rows_add_result_columns)
  have run: "validate_emails net email_col df st = validate_rows net email_col ?items ?df0 st"
    using assms(1,2,3) by (auto simp: validate_emails_def Let_def)
  have d: "distinct (map fst ?items)" by simp
  have p: "\<forall>(i, row) \<in> set ?items. i < length (rows ?df0) \<and> row email_col \<noteq> None
            \<and> (rows ?df0 ! i) ''reachable'' = Some (CBool False)"
  proof (clarify)
    fix i row assume "(i, row) \<in> set ?items"
    then have i: "i < length (rows df)" and row: "row = rows ?df0 ! i"
      by (auto simp: in_set_enumerate_eq len0)
    from i have "rows df ! i \<in> set (rows df)" by simp
    with assms(3,4) have "email_col \<in> dom (rows df ! i)" by (simp add: well_formed_def)
    then have "row email_col \<noteq> None"
      using i row by (auto simp: rows_add_result_columns)
    moreover have "(rows ?df0 ! i) ''reachable'' = Some (CBool False)"
      using i by (simp add: rows_add_result_columns)
    ultimately show "i < length (rows ?df0) \<and> row email_col \<noteq> None
            \<and> (rows ?df0 ! i) ''reachable'' = Some (CBool False)"
      using i len0 by simp
  qed
  have rd: "ready ?df0" using assms(1,5,6) by (rule ready_add_result_columns)
  from validate_rows_loop [where items="?items" and df="?df0" and col=email_col and net=net and st=st,
      OF d p rd]
  obtain out where
    r: "validate_rows net email_col ?items ?df0 st
          = (Inr out, probe_all net (filter is_email_format_valid
                                      (map (address email_col) (map snd ?items))) st)"
    and len: "length (rows out) = length (rows ?df0)"
    and flags: "\<forall>(i, row) \<in> set ?items.
                  flagged (rows out ! i) \<longleftrightarrow> \<not> is_email_format_valid (address email_col row)"
    by blast
  have A: "validate_emails net email_col df st
             = (Inr out, probe_all net (filter is_email_format_valid
                           (map (address email_col) (rows ?df0))) st)"
    using run r by simp
  have B: "length (rows out) = length (rows df)" using len len0 by simp
  have C: "map flagged (rows out)
             = map (\<lambda>r. \<not> is_email_format_valid (address email_col r)) (rows ?df0)"
  proof (rule nth_equalityI)
    show "length (map flagged (rows out))
            = length (map (\<lambda>r. \<not> is_email_format_valid (address email_col r)) (rows ?df0))"
      using len by simp
  next
    fix i assume "i < length (map flagged (rows out))"
    then have i: "i < length (rows ?df0)" using len by simp
    then have "(i, rows ?df0 ! i) \<in> set ?items" by (simp add: in_set_enumerate_eq)
    with flags have "flagged (rows out ! i)
        \<longleftrightarrow> \<not> is_email_format_valid (address email_col (rows ?df0 ! i))" by blast
    then show "map flagged (rows out) ! i
        = map (\<lambda>r. \<not> is_email_format_valid (address email_col r)) (rows ?df0) ! i"
      using i len by simp
  qed
  from A B C show ?thesis by blast
qed

text \<open>
  C5, as amended: take a well-formed table that is not empty and a chosen column of it
  that is not named like one of the three result columns, and let a column named
  \<^verbatim>\<open>username\<close> or \<^verbatim>\<open>domain\<close>, if the table has one, be able to take strings. Then the
  batch driver ends with a table of as many records; a record has
  \<^verbatim>\<open>reachable = False\<close> and \<^verbatim>\<open>validation_message = "Invalid email format"\<close> exactly
  when the uploaded address of that record is format-invalid, so there are exactly as
  many such records as format-invalid addresses; and the state of the network at the end
  is the one reached by probing the format-valid addresses alone, in order: nothing is
  looked up or contacted for a format-invalid one.
\<close>

theorem invalid_rows_flagged_without_probe:
  assumes "rows df \<noteq> []" and "email_col \<noteq> []" and "email_col \<in> set (columns df)"
    and "well_formed df"
    and "email_col \<notin> result_columns"
    and "takes_strings ''username'' df" and "takes_strings ''domain'' df"
  shows "\<exists>out. validate_emails net email_col df st
             = (Inr out, probe_all net (filter is_email_format_valid
                                         (map (address email_col) (rows df))) st)
          \<and> length (rows out) = length (rows df)
          \<and> map flagged (rows out)
              = map (\<lambda>r. \<not> is_email_format_valid (address email_col r)) (rows df)
          \<and> length (filter flagged (rows out))
              = length (filter (\<lambda>r. \<not> is_email_format_valid (address email_col r)) (rows df))"
proof -
  from validate_emails_run [OF assms(1,2,3,4,6,7), of net st] obtain out where
    A: "validate_emails net email_col df st
          = (Inr out, probe_all net (filter is_email_format_valid
                        (map (address email_col) (rows (add_result_columns df)))) st)"
    and B: "length (rows out) = length (rows df)"
    and C: "map flagged (rows out)
              = map (\<lambda>r. \<not> is_email_format_valid (address email_col r))
                  (rows (add_result_columns df))"
    by blast
  note same = address_add_result_columns [OF assms(5), of df]
  have A': "validate_emails net email_col df st
          = (Inr out, probe_all net (filter is_email_format_valid
                                      (map (address email_col) (rows df))) st)"
    using A same by simp
  have "map (\<lambda>r. \<not> is_email_format_valid (address email_col r)) (rows (add_result_columns df))
        = map (\<lambda>a. \<not> is_email_format_valid a) (map (address email_col) (rows (add_result_columns df)))"
    by simp
  also have "\<dots> = map (\<lambda>a. \<not> is_email_format_valid a) (map (address email_col) (rows df))"
    using same by simp
  also have "\<dots> = map (\<lambda>r. \<not> is_email_format_valid (address email_col r)) (rows df)"
    by simp
  finally have C': "map flagged (rows out)
              = map (\<lambda>r. \<not> is_email_format_valid (address email_col r)) (rows df)"
    using C by simp
  have D: "length (filter flagged (rows out))
             = length (filter (\<lambda>r. \<not> is_email_format_valid (address email_col r)) (rows df))"
    using C' by (rule count_flagged)
  show ?thesis
    by (rule exI [of _ out]) (intro conjI A' B C' D)
qed

lemma example_valid: "is_email_format_valid ''user@example.com''"
  using is_email_format_valid_iff shape_example by blast

lemma nan_invalid: "\<not> is_email_format_valid ''nan''"
  using valid_has_at [of "''nan''"] by auto

lemma False_invalid: "\<not> is_email_format_valid ''False''"
  using valid_has_at [of "''False''"] by auto

theorem invalid_rows_flagged_without_probe_witness:
  "\<exists>out. validate_emails (scripted_net example_dns (\<lambda>h. Replies 250)) ''email''
            \<lparr>columns = [''email''],
             rows = [[''email'' \<mapsto> CStr ''not-an-email''],
                     [''email'' \<mapsto> CStr ''user@example.com''],
                     [''email'' \<mapsto> CNaN]]\<rparr> start
          = (Inr out,
             \<lparr>world = ''mx1.example.com'',
              log = [Resolve ''example.com'', Connect ''mx1.example.com'' 15, Helo,
                     Mail ''emeraldgreen@example.com'', Rcpt ''user@example.com'', Quit]\<rparr>)
        \<and> length (rows out) = 3
        \<and> map flagged (rows out) = [True, False, True]
        \<and> length (filter flagged (rows out)) = 2"
proof -
  let ?df = "\<lparr>columns = [''email''],
             rows = [[''email'' \<mapsto> CStr ''not-an-email''],
                     [''email'' \<mapsto> CStr ''user@example.com''],
                     [''email'' \<mapsto> CNaN]]\<rparr>"
  let ?net = "scripted_net example_dns (\<lambda>h. Replies 250)"
  have 1: "rows ?df \<noteq> []" by simp
  have 2: "''email'' \<noteq> []" by simp
  have 3: "''email'' \<in> set (columns ?df)" by simp
  have 4: "well_formed ?df" by (simp add: well_formed_def)
  have 5: "''email'' \<notin> result_columns" by (simp add: result_columns_def)
  have 6: "takes_strings ''username'' ?df" by (simp add: takes_strings_def)
  have 7: "takes_strings ''domain'' ?df" by (simp add: takes_strings_def)
  have a: "map (address ''email'') (rows ?df) = [''not-an-email'', ''user@example.com'', ''nan'']"
    by (simp add: address_def)
  have p: "probe_all ?net [''user@example.com''] start
          = \<lparr>world = ''mx1.example.com'',
              log = [Resolve ''example.com'', Connect ''mx1.example.com'' 15, Helo,
                     Mail ''emeraldgreen@example.com'', Rcpt ''user@example.com'', Quit]\<rparr>"
    by (simp add: fixture_defs)
  from invalid_rows_flagged_without_probe [OF 1 2 3 4 5 6 7, of ?net start]
  obtain out where
    r: "validate_emails ?net ''email'' ?df start
          = (Inr out, probe_all ?net (filter is_email_format_valid
                                       (map (address ''email'') (rows ?df))) start)"
    and n: "length (rows out) = length (rows ?df)"
    and f: "map flagged (rows out)
              = map (\<lambda>r. \<not> is_email_format_valid (address ''email'' r)) (rows ?df)"
    and m: "length (filter flagged (rows out))
              = length (filter (\<lambda>r. \<not> is_email_format_valid (address ''email'' r)) (rows ?df))"
    by blast
  have r': "validate_emails ?net ''email'' ?df start
          = (Inr out,
             \<lparr>world = ''mx1.example.com'',
              log = [Resolve ''example.com'', Connect ''mx1.example.com'' 15, Helo,
                     Mail ''emeraldgreen@example.com'', Rcpt ''user@example.com'', Quit]\<rparr>)"
    using r p unfolding a by (simp add: not_an_email_invalid example_valid nan_invalid)
  have n': "length (rows out) = 3" using n by simp
  have f': "map flagged (rows out) = [True, False, True]"
    using f by (simp add: address_def not_an_email_invalid example_valid nan_invalid)
  have m': "length (filter flagged (rows out)) = 2"
    using m by (simp add: address_def not_an_email_invalid example_valid nan_invalid)
  show ?thesis
    by (rule exI [of _ out]) (intro conjI r' n' f' m')
qed

text \<open>
  C5, as stated, fails: in a table whose address column is named \<^verbatim>\<open>reachable\<close> the
  uploaded address \<^verbatim>\<open>user@example.com\<close> is format-valid, so no record has a
  format-invalid address; line 118 overwrites the column before the loop reads it, the
  loop reads \<^verbatim>\<open>False\<close>, and the one record comes out with \<^verbatim>\<open>reachable = False\<close> and
  the message "Invalid email format", the network untouched.
\<close>

theorem chosen_column_overwritten_counterexample:
  "is_email_format_valid
     (address ''reachable'' [''reachable'' \<mapsto> CStr ''user@example.com''])
   \<and> map_sum id (map flagged \<circ> rows)
       (fst (validate_emails (scripted_net example_dns (\<lambda>h. Replies 250)) ''reachable''
               \<lparr>columns = [''reachable''],
                rows = [[''reachable'' \<mapsto> CStr ''user@example.com'']]\<rparr> start))
       = Inr [True]
   \<and> snd (validate_emails (scripted_net example_dns (\<lambda>h. Replies 250)) ''reachable''
               \<lparr>columns = [''reachable''],
                rows = [[''reachable'' \<mapsto> CStr ''user@example.com'']]\<rparr> start)
       = start"
proof -
  let ?df = "\<lparr>columns = [''reachable''],
             rows = [[''reachable'' \<mapsto> CStr ''user@example.com'']]\<rparr>"
  let ?net = "scripted_net example_dns (\<lambda>h. Replies 250)"
  have 1: "rows ?df \<noteq> []" by simp
  have 2: "''reachable'' \<noteq> []" by simp
  have 3: "''reachable'' \<in> set (columns ?df)" by simp
  have 4: "well_formed ?df" by (simp add: well_formed_def)
  have 6: "takes_strings ''username'' ?df" by (simp add: takes_strings_def)
  have 7: "takes_strings ''domain'' ?df" by (simp add: takes_strings_def)
  have a: "map (address ''reachable'') (rows (add_result_columns ?df)) = [''False'']"
    by (simp add: rows_add_result_columns address_def)
  from validate_emails_run [OF 1 2 3 4 6 7, of ?net start]
  obtain out where
    r: "validate_emails ?net ''reachable'' ?df start
          = (Inr out, probe_all ?net (filter is_email_format_valid
                        (map (address ''reachable'') (rows (add_result_columns ?df)))) start)"
    and f: "map flagged (rows out)
              = map (\<lambda>r. \<not> is_email_format_valid (address ''reachable'' r))
                  (rows (add_result_columns ?df))"
    by blast
  have f': "map flagged (rows out) = [True]"
    using f by (simp add: rows_add_result_columns address_def False_invalid)
  have r': "validate_emails ?net ''reachable'' ?df start = (Inr out, start)"
    using r unfolding a by (simp add: False_invalid)
  have v: "is_email_format_valid
     (address ''reachable'' [''reachable'' \<mapsto> CStr ''user@example.com''])"
    by (simp add: address_def example_valid)
  show ?thesis using v r' f' by simp
qed

text \<open>
  A column \<^verbatim>\<open>username\<close> of numbers in the uploaded table cannot take the local part of
  the first format-valid address: the write raises after the address was probed, and the
  run ends without a table.
\<close>

lemma typed_username_column_ends_run:
  "validate_emails (scripted_net example_dns (\<lambda>h. Replies 250)) ''email''
     \<lparr>columns = [''email'', ''username''],
      rows = [[''email'' \<mapsto> CStr ''user@example.com'', ''username'' \<mapsto> CNum ''7'']]\<rparr> start
     = (Inl (ProcessingError TypeError),
        \<lparr>world = ''mx1.example.com'',
         log = [Resolve ''example.com'', Connect ''mx1.example.com'' 15, Helo,
                Mail ''emeraldgreen@example.com'', Rcpt ''user@example.com'', Quit]\<rparr>)"
proof -
  let ?net = "scripted_net example_dns (\<lambda>h. Replies 250)"
  have v: "verify_email_smtp ?net ''user@example.com'' 15 start
     = ((True, ''Email exists''),
        \<lparr>world = ''mx1.example.com'',
         log = [Resolve ''example.com'', Connect ''mx1.example.com'' 15, Helo,
                Mail ''emeraldgreen@example.com'', Rcpt ''user@example.com'', Quit]\<rparr>)"
    by (simp add: fixture_defs)
  show ?thesis
    using v example_valid
    by (simp add: validate_emails_def add_result_columns_def set_column_def enumerate_eq_zip
      validate_row_def set_at_def put_def column_dtype_def column_cells_def and_then_def
      is_email_format_valid_st_def is_email_format_valid_def)
qed

end
